theory Spec2Isabelle
  imports Main "HOL-Library.Sublist"
begin

section \<open>The SLURM adapter of COSMOS (cosmos/job/drm/drm\_slurm.py)\<close>

text \<open>
  A shallow embedding of \<open>drm_slurm.py\<close>. Byte strings are \<open>string\<close>, dictionaries
  are maps, exceptions are values of the type \<open>error\<close> on the left of a sum, and the
  external commands (\<open>sbatch\<close>, \<open>squeue\<close>, \<open>scontrol\<close>, \<open>scancel\<close>) are an explicit
  environment that says how each invocation ends.
\<close>

subsection \<open>Python string primitives\<close>

text \<open>The characters \<open>str.strip\<close>, \<open>str.split\<close> and the pattern \<open>\s\<close> treat as white space.\<close>

definition is_space :: "char \<Rightarrow> bool" where
  "is_space c \<longleftrightarrow>
     c = CHR '' '' \<or> c = CHR 0x09 \<or> c = CHR 0x0A \<or> c = CHR 0x0B \<or> c = CHR 0x0C \<or> c = CHR 0x0D"

text \<open>\<open>s.strip()\<close>\<close>

definition strip :: "string \<Rightarrow> string" where
  "strip s = rev (dropWhile is_space (rev (dropWhile is_space s)))"

text \<open>\<open>s.split()\<close>: the maximal runs of characters that are not white space.\<close>

function split_ws :: "string \<Rightarrow> string list" where
  "split_ws s =
     (case dropWhile is_space s of
        [] \<Rightarrow> []
      | c # cs \<Rightarrow> takeWhile (\<lambda>x. \<not> is_space x) (c # cs)
                 # split_ws (dropWhile (\<lambda>x. \<not> is_space x) cs))"
  by pat_completeness auto
termination
proof (relation "measure length")
  show "wf (measure length)" by simp
next
  fix s :: string and c cs
  assume a: "dropWhile is_space s = c # cs"
  have "length (dropWhile (\<lambda>x. \<not> is_space x) cs) \<le> length cs"
    by (rule length_dropWhile_le)
  moreover have "length (c # cs) \<le> length s"
    using length_dropWhile_le [of is_space s] a by simp
  ultimately show "(dropWhile (\<lambda>x. \<not> is_space x) cs, s) \<in> measure length"
    by simp
qed

text \<open>\<open>s.find(c)\<close>: the index of the first occurrence of \<open>c\<close>, or \<open>-1\<close>.\<close>

fun find_char :: "char \<Rightarrow> string \<Rightarrow> int" where
  "find_char c [] = - 1"
| "find_char c (x # xs) =
     (if x = c then 0
      else (let r = find_char c xs in if r = - 1 then - 1 else r + 1))"

text \<open>\<open>sep.join(xs)\<close>\<close>

fun join :: "string \<Rightarrow> string list \<Rightarrow> string" where
  "join sep [] = []"
| "join sep [x] = x"
| "join sep (x # y # ys) = x @ sep @ join sep (y # ys)"

text \<open>
  The text cut at every character that satisfies \<open>P\<close>, empty pieces kept:
  \<open>s.split('\n')\<close> is \<open>split_at (\<lambda>c. c = CHR 0x0A) s\<close>.
\<close>

fun split_at :: "(char \<Rightarrow> bool) \<Rightarrow> string \<Rightarrow> string list" where
  "split_at P [] = [[]]"
| "split_at P (c # cs) =
     (if P c then [] # split_at P cs
      else (case split_at P cs of
              [] \<Rightarrow> [[c]]
            | p # ps \<Rightarrow> (c # p) # ps))"

text \<open>
  \<open>re.split("\s+", s)\<close>: the pieces between the maximal runs of white space; a text
  that starts or ends with white space gives an empty first or last piece.
\<close>

function re_split_ws :: "string \<Rightarrow> string list" where
  "re_split_ws s =
     (case dropWhile (\<lambda>x. \<not> is_space x) s of
        [] \<Rightarrow> [takeWhile (\<lambda>x. \<not> is_space x) s]
      | c # cs \<Rightarrow> takeWhile (\<lambda>x. \<not> is_space x) s # re_split_ws (dropWhile is_space cs))"
  by pat_completeness auto
termination
proof (relation "measure length")
  show "wf (measure length)" by simp
next
  fix s :: string and c cs
  assume a: "dropWhile (\<lambda>x. \<not> is_space x) s = c # cs"
  have "length (dropWhile is_space cs) \<le> length cs"
    by (rule length_dropWhile_le)
  moreover have "length (c # cs) \<le> length s"
    using length_dropWhile_le [of "\<lambda>x. \<not> is_space x" s] a by simp
  ultimately show "(dropWhile is_space cs, s) \<in> measure length"
    by simp
qed

text \<open>The characters the pattern \<open>\d\<close> matches in a byte string.\<close>

definition is_digit :: "char \<Rightarrow> bool" where
  "is_digit c \<longleftrightarrow> c \<in> set ''0123456789''"

text \<open>\<open>dict(pairs)\<close>: a later pair overwrites an earlier one with the same key.\<close>

definition py_dict :: "('k \<times> 'v) list \<Rightarrow> ('k \<rightharpoonup> 'v)" where
  "py_dict ps = foldl (\<lambda>m (k, v). m(k \<mapsto> v)) Map.empty ps"

subsection \<open>Tasks, exceptions, dictionaries\<close>

text \<open>The fields of a task that the adapter reads.\<close>

record task =
  drm_jobID :: string
  output_stdout_path :: string
  output_stderr_path :: string
  drm_native_specification :: "string option"
  output_command_script_path :: string

text \<open>
  The exceptions that leave the adapter, with the values their messages are built from.
  \<open>ValueError jid i secs\<close> is the one raised when the retries of \<open>_qacct_raw\<close> run out;
  \<open>EnvironmentError jid raw kv\<close> is the one raised for unparseable \<open>scontrol\<close> output.
\<close>

datatype error =
    CalledProcessError int string
  | OSError
  | AttributeError
  | TypeError
  | KeyError string
  | IndexError
  | UnboundLocalError string
  | ZeroDivisionError
  | ValueError string int int
  | EnvironmentError string string string

type_synonym acct_dict = "string \<rightharpoonup> string"

subsection \<open>The parser at the end of \<open>_qacct_raw\<close>\<close>

text \<open>
  The loop over \<open>qacct_stdout_str.strip().split()\<close>, with the dictionary \<open>acct_dict\<close>
  and the current key \<open>k\<close> (\<open>None\<close> before the first key) as loop state.
\<close>

fun parse_loop ::
  "string \<Rightarrow> string \<Rightarrow> acct_dict \<Rightarrow> string option \<Rightarrow> string list \<Rightarrow> error + acct_dict" where
  "parse_loop jid raw acct k [] = Inr acct"
| "parse_loop jid raw acct k (kv # rest) =
     (let eq_pos = find_char CHR ''='' kv in
      if eq_pos = - 1 then
        (case k of
           Some key \<Rightarrow>
             (case acct key of
                Some v \<Rightarrow> parse_loop jid raw (acct(key \<mapsto> v @ '' '' @ kv)) k rest
              | None \<Rightarrow> Inl (KeyError key))
         | None \<Rightarrow> Inl (EnvironmentError jid raw kv))
      else
        (let key = take (nat eq_pos) kv; v = drop (nat (eq_pos + 1)) kv
         in parse_loop jid raw (acct(key \<mapsto> v)) (Some key) rest))"

definition parse_acct :: "string \<Rightarrow> string \<Rightarrow> error + acct_dict" where
  "parse_acct jid qacct_stdout_str =
     parse_loop jid qacct_stdout_str Map.empty None (split_ws (strip qacct_stdout_str))"

text \<open>
  The parser as the specification words it: a token that contains \<open>=\<close> is cut at the
  first \<open>=\<close> and starts (or overwrites) the current entry; a token without \<open>=\<close> is
  appended to the value of the current entry after one space; a token without \<open>=\<close>
  before any key is an error that carries the token and the raw text.
\<close>

fun spec_parse_tokens ::
  "string \<Rightarrow> string \<Rightarrow> acct_dict \<Rightarrow> string option \<Rightarrow> string list \<Rightarrow> error + acct_dict" where
  "spec_parse_tokens jid raw entries cur [] = Inr entries"
| "spec_parse_tokens jid raw entries cur (tok # toks) =
     (if CHR ''='' \<in> set tok then
        (let key = takeWhile (\<lambda>c. c \<noteq> CHR ''='') tok;
             val = tl (dropWhile (\<lambda>c. c \<noteq> CHR ''='') tok)
         in spec_parse_tokens jid raw (entries(key \<mapsto> val)) (Some key) toks)
      else
        (case cur of
           None \<Rightarrow> Inl (EnvironmentError jid raw tok)
         | Some key \<Rightarrow>
             spec_parse_tokens jid raw
               (entries(key \<mapsto> the (entries key) @ '' '' @ tok)) cur toks))"

text \<open>
  The tokens of a text as the specification words them: the text cut at every white-space
  character, the empty pieces dropped.
\<close>

definition spec_tokens :: "string \<Rightarrow> string list" where
  "spec_tokens s = filter (\<lambda>t. t \<noteq> []) (split_at is_space s)"

definition spec_parse :: "string \<Rightarrow> string \<Rightarrow> error + acct_dict" where
  "spec_parse jid raw = spec_parse_tokens jid raw Map.empty None (spec_tokens raw)"

subsection \<open>The environment: external commands, clock, log\<close>

text \<open>
  How a call of \<open>subprocess.check_output\<close> ends: it returns the standard output of a
  command that exited with status 0, raises \<open>CalledProcessError\<close> (exit status and
  output) for any other exit status, or raises \<open>OSError\<close> when the command cannot be
  started.
\<close>

datatype check_output =
    Returned string
  | Raised_CalledProcessError int string
  | Raised_OSError

text \<open>
  The world the adapter runs in. \<open>sbatch\<close> answers the shell command line of a
  submission; \<open>squeue\<close> is the outcome of the listing command; \<open>scontrol jid i\<close> is the
  outcome of the query for job \<open>jid\<close> on attempt \<open>i\<close> (counted from 0) of one retrieval,
  with what the command wrote to the standard error file; \<open>elapsed jid k\<close> is
  \<open>time.time() - start\<close> in whole seconds, read after \<open>k\<close> attempts of that retrieval.
\<close>

record world =
  sbatch :: "string \<Rightarrow> check_output"
  squeue :: check_output
  scontrol :: "string \<Rightarrow> nat \<Rightarrow> check_output \<times> string"
  elapsed :: "string \<Rightarrow> nat \<Rightarrow> int"

text \<open>The calls of the workflow's logger, with the values they format.\<close>

datatype log_entry =
    Error_returned string int
  | Error_printed string
  | Error_stdout string
  | Error_stderr string
  | Info_attempt_failed string int int bool
  | Warn_job_state string string

text \<open>
  What a function does to the outside, in order: a call that runs a command with an
  argument vector, a call that runs a command line by the shell, a call of
  \<open>sleep_through_signals\<close>, a log call.
\<close>

datatype event =
    Run "string list"
  | Shell string
  | Sleep int
  | Log log_entry

fun is_run :: "string \<Rightarrow> event \<Rightarrow> bool" where
  "is_run cmd (Run (c # args)) = (c = cmd)"
| "is_run cmd e = False"

definition count_runs :: "string \<Rightarrow> event list \<Rightarrow> nat" where
  "count_runs cmd tr = length (filter (is_run cmd) tr)"

subsection \<open>\<open>DRM_SLURM.submit_job\<close>\<close>

text \<open>
  \<open>re.search('job (\d+)', out)\<close>: \<open>match_job_at\<close> is the match that starts at the head
  of the text (the group is the longest run of digits), \<open>re_search_job\<close> the leftmost one.
\<close>

definition match_job_at :: "string \<Rightarrow> string option" where
  "match_job_at s =
     (if prefix ''job '' s \<and> takeWhile is_digit (drop 4 s) \<noteq> []
      then Some (takeWhile is_digit (drop 4 s)) else None)"

fun re_search_job :: "string \<Rightarrow> string option" where
  "re_search_job [] = None"
| "re_search_job (c # cs) =
     (case match_job_at (c # cs) of
        Some g \<Rightarrow> Some g
      | None \<Rightarrow> re_search_job cs)"

text \<open>
  What the file system holds at a path that exists: something \<open>os.unlink\<close> removes, or
  something it cannot remove (a directory, a file in a directory that is not writable),
  for which it raises \<open>OSError\<close>.
\<close>

datatype entry = Removable | Unremovable

type_synonym file_system = "string \<rightharpoonup> entry"

text \<open>
  Lines 22 and 23 for one path. \<open>os.path.exists\<close> raises \<open>TypeError\<close> for a path
  with a NUL byte; \<open>os.unlink\<close> is called only for a path that exists.
\<close>

definition unlink_if_exists :: "file_system \<Rightarrow> string \<Rightarrow> error + file_system" where
  "unlink_if_exists files p =
     (if CHR 0x00 \<in> set p then Inl TypeError
      else (case files p of
              None \<Rightarrow> Inr files
            | Some Removable \<Rightarrow> Inr (files(p := None))
            | Some Unremovable \<Rightarrow> Inl OSError))"

text \<open>
  \<open>sbatch_command\<close> is the command line \<open>sub\<close>. \<open>submit_job\<close> returns the job
  identifier or the exception, the file system afterwards, and what it ran. A command
  line with a NUL byte cannot be passed to the shell: \<open>check_output\<close> raises \<open>TypeError\<close>.
\<close>

definition sbatch_command :: "task \<Rightarrow> string" where
  "sbatch_command task =
     (let ns = (case drm_native_specification task of
                  None \<Rightarrow> []
                | Some spec \<Rightarrow> if spec = [] then [] else '' '' @ spec)
      in ''sbatch -o '' @ output_stdout_path task @ '' -e '' @ output_stderr_path task
         @ '' '' @ ns @ '' '' @ output_command_script_path task)"

definition submit_job ::
  "world \<Rightarrow> file_system \<Rightarrow> task \<Rightarrow> (error + string) \<times> file_system \<times> event list" where
  "submit_job w files task =
     (case unlink_if_exists files (output_stdout_path task) of
        Inl e \<Rightarrow> (Inl e, files, [])
      | Inr files1 \<Rightarrow>
          (case unlink_if_exists files1 (output_stderr_path task) of
             Inl e \<Rightarrow> (Inl e, files1, [])
           | Inr files2 \<Rightarrow>
               (let sub = sbatch_command task in
                if CHR 0x00 \<in> set sub then (Inl TypeError, files2, [Shell sub])
                else (case sbatch w sub of
                        Raised_CalledProcessError rc out \<Rightarrow>
                          (Inl (CalledProcessError rc out), files2, [Shell sub])
                      | Raised_OSError \<Rightarrow> (Inl OSError, files2, [Shell sub])
                      | Returned out \<Rightarrow>
                          (case re_search_job out of
                             None \<Rightarrow> (Inl AttributeError, files2, [Shell sub])
                           | Some jobID \<Rightarrow> (Inr jobID, files2, [Shell sub]))))))"

subsection \<open>\<open>_qstat_all\<close>\<close>

type_synonym status_table = "string \<rightharpoonup> (string \<rightharpoonup> string)"

fun qstat_rows :: "string list \<Rightarrow> status_table \<Rightarrow> string list \<Rightarrow> error + status_table" where
  "qstat_rows keys bjobs [] = Inr bjobs"
| "qstat_rows keys bjobs (l # ls) =
     (let items = re_split_ws (strip l) in
      case items of
        [] \<Rightarrow> Inl IndexError
      | item0 # _ \<Rightarrow> qstat_rows keys (bjobs(item0 \<mapsto> py_dict (zip keys items))) ls)"

definition qstat_all :: "check_output \<Rightarrow> error + status_table" where
  "qstat_all run =
     (case run of
        Raised_CalledProcessError rc out \<Rightarrow> Inr Map.empty
      | Raised_OSError \<Rightarrow> Inr Map.empty
      | Returned out \<Rightarrow>
          (case split_at (\<lambda>c. c = CHR 0x0A) (strip out) of
             [] \<Rightarrow> Inl IndexError
           | line0 # lines \<Rightarrow> qstat_rows (re_split_ws (strip line0)) Map.empty lines))"

subsection \<open>\<open>_qacct_raw\<close> and \<open>_get_task_return_data\<close>\<close>

definition sentinel :: string where
  "sentinel = ''slurm_load_jobs error: Invalid job id specified''"

definition scontrol_argv :: "string \<Rightarrow> string list" where
  "scontrol_argv jid = [''scontrol'', ''show'', ''jobid'', ''-d'', ''-o'', jid]"

text \<open>How the body of the \<open>with\<close> block of one attempt ends.\<close>

datatype attempt =
    Break string
  | Return acct_dict
  | Raise error
  | Fall_through

text \<open>The log calls of the \<open>else\<close> branch of the sentinel test.\<close>

definition log_failure :: "string \<Rightarrow> int \<Rightarrow> string \<Rightarrow> string \<Rightarrow> event list" where
  "log_failure jid qacct_returncode qacct_stdout_str qacct_stderr_str =
     Log (Error_returned jid qacct_returncode)
     # (if qacct_stdout_str \<noteq> [] \<or> qacct_stderr_str \<noteq> [] then
          Log (Error_printed jid)
          # (if qacct_stdout_str \<noteq> [] then [Log (Error_stdout qacct_stdout_str)] else [])
          @ (if qacct_stderr_str \<noteq> [] then [Log (Error_stderr qacct_stderr_str)] else [])
        else [])"

text \<open>Lines 118 to 133: the standard error file is read, stripped and compared.\<close>

definition after_query :: "string \<Rightarrow> int \<Rightarrow> string \<Rightarrow> string \<Rightarrow> attempt \<times> event list" where
  "after_query jid qacct_returncode qacct_stdout_str stderr_text =
     (let qacct_stderr_str = strip stderr_text in
      if sentinel = qacct_stderr_str then (Return [''JobId'' \<mapsto> jid], [])
      else (Fall_through, log_failure jid qacct_returncode qacct_stdout_str qacct_stderr_str))"

text \<open>Lines 107 to 133: one attempt, number \<open>i\<close> counted from 0.\<close>

definition qacct_attempt :: "world \<Rightarrow> string \<Rightarrow> nat \<Rightarrow> attempt \<times> event list" where
  "qacct_attempt w jid i =
     (case scontrol w jid i of
        (Returned qacct_stdout_str, stderr_text) \<Rightarrow>
          if strip qacct_stdout_str \<noteq> [] then (Break qacct_stdout_str, [Run (scontrol_argv jid)])
          else (let (a, ev) = after_query jid 0 qacct_stdout_str stderr_text
                in (a, Run (scontrol_argv jid) # ev))
      | (Raised_CalledProcessError returncode output, stderr_text) \<Rightarrow>
          (let (a, ev) = after_query jid returncode (strip output) stderr_text
           in (a, Run (scontrol_argv jid) # ev))
      | (Raised_OSError, stderr_text) \<Rightarrow> (Raise OSError, [Run (scontrol_argv jid)]))"

text \<open>Lines 135 to 141: the end of an attempt that neither broke out nor returned.\<close>

definition between_attempts :: "world \<Rightarrow> string \<Rightarrow> int \<Rightarrow> int \<Rightarrow> nat \<Rightarrow> event list" where
  "between_attempts w jid quantum num_retries i =
     (if i > 0 then
        [Log (Info_attempt_failed jid (int i + 1) (elapsed w jid (Suc i)) (int i + 1 < num_retries))]
      else [])
     @ (if int i + 1 < num_retries then [Sleep quantum] else [])"

text \<open>
  The loop \<open>for i in xrange(num_retries)\<close> from index \<open>i\<close> on, with its \<open>else\<close> clause
  and the parser after it. When the loop runs out, the \<open>else\<close> clause reads the loop
  variable, which holds the last index, \<open>i - 1\<close> here, and is unbound when the loop
  body never ran.
\<close>

function qacct_loop ::
  "world \<Rightarrow> string \<Rightarrow> int \<Rightarrow> int \<Rightarrow> nat \<Rightarrow> (error + acct_dict) \<times> event list" where
  "qacct_loop w jid quantum num_retries i =
     (if int i < num_retries then
        (case qacct_attempt w jid i of
           (Break qacct_stdout_str, ev) \<Rightarrow> (parse_acct jid qacct_stdout_str, ev)
         | (Return d, ev) \<Rightarrow> (Inr d, ev)
         | (Raise e, ev) \<Rightarrow> (Inl e, ev)
         | (Fall_through, ev) \<Rightarrow>
             (let (r, tr) = qacct_loop w jid quantum num_retries (Suc i)
              in (r, ev @ between_attempts w jid quantum num_retries i @ tr)))
      else if i = 0 then (Inl (UnboundLocalError ''i''), [])
      else (Inl (ValueError jid (int i - 1) (elapsed w jid i)), []))"
  by pat_completeness auto
termination
  by (relation "measure (\<lambda>(w, jid, quantum, num_retries, i). nat (num_retries - int i))") auto

definition qacct_raw :: "world \<Rightarrow> task \<Rightarrow> int \<Rightarrow> int \<Rightarrow> (error + acct_dict) \<times> event list" where
  "qacct_raw w task timeout quantum =
     (if quantum = 0 then (Inl ZeroDivisionError, [])
      else qacct_loop w (drm_jobID task) quantum (timeout div quantum) 0)"

definition get_task_return_data :: "world \<Rightarrow> task \<Rightarrow> (error + acct_dict) \<times> event list" where
  "get_task_return_data w task =
     (case qacct_raw w task 600 15 of
        (Inl e, tr) \<Rightarrow> (Inl e, tr)
      | (Inr d, tr) \<Rightarrow>
          (let job_state = (case d ''JobState'' of None \<Rightarrow> ''COMPLETED'' | Some s \<Rightarrow> s)
           in (Inr d,
               tr @ (if job_state \<noteq> ''COMPLETED''
                     then [Log (Warn_job_state (drm_jobID task) job_state)] else []))))"

subsection \<open>\<open>DRM_SLURM.filter_is_done\<close> and \<open>DRM_SLURM.drm_statuses\<close>\<close>

definition finished_states :: "string list" where
  "finished_states = [''F'', ''BF'', ''CA'', ''CD'', ''NF'', ''PR'', ''R'', ''TO'']"

text \<open>
  The condition of lines 47 to 49. \<open>finished_state in qjobs[jid]['ST']\<close> is Python's
  test on two strings: the left one occurs in the right one as a contiguous piece.
  A row without the field \<open>ST\<close> raises \<open>KeyError\<close>.
\<close>

definition is_done :: "status_table \<Rightarrow> task \<Rightarrow> error + bool" where
  "is_done qjobs task =
     (let jid = drm_jobID task in
      case qjobs jid of
        None \<Rightarrow> Inr True
      | Some row \<Rightarrow>
          (case row ''ST'' of
             None \<Rightarrow> Inl (KeyError ''ST'')
           | Some st \<Rightarrow> Inr (list_ex (\<lambda>finished_state. sublist finished_state st) finished_states)))"

text \<open>
  The generator: the pairs it yields, the exception that ends it (if one does), and what
  it did to the outside.
\<close>

fun filter_loop ::
  "world \<Rightarrow> status_table \<Rightarrow> task list \<Rightarrow> (task \<times> acct_dict) list \<times> error option \<times> event list" where
  "filter_loop w qjobs [] = ([], None, [])"
| "filter_loop w qjobs (task # tasks) =
     (case is_done qjobs task of
        Inl e \<Rightarrow> ([], Some e, [])
      | Inr False \<Rightarrow> filter_loop w qjobs tasks
      | Inr True \<Rightarrow>
          (case get_task_return_data w task of
             (Inl e, tr) \<Rightarrow> ([], Some e, tr)
           | (Inr data, tr) \<Rightarrow>
               (let (ys, err, tr') = filter_loop w qjobs tasks
                in ((task, data) # ys, err, tr @ tr'))))"

definition filter_is_done ::
  "world \<Rightarrow> task list \<Rightarrow> (task \<times> acct_dict) list \<times> error option \<times> event list" where
  "filter_is_done w tasks =
     (if tasks = [] then ([], None, [])
      else (case qstat_all (squeue w) of
              Inl e \<Rightarrow> ([], Some e, [Run [''squeue'']])
            | Inr qjobs \<Rightarrow>
                (let (ys, err, tr) = filter_loop w qjobs tasks
                 in (ys, err, Run [''squeue''] # tr))))"

text \<open>The function \<open>f\<close> of \<open>drm_statuses\<close>.\<close>

definition drm_status :: "status_table \<Rightarrow> string \<Rightarrow> string" where
  "drm_status qjobs jid =
     (case (case qjobs jid of None \<Rightarrow> Map.empty | Some row \<Rightarrow> row) ''ST'' of
        None \<Rightarrow> ''???''
      | Some st \<Rightarrow> st)"

definition drm_statuses :: "world \<Rightarrow> task list \<Rightarrow> (error + (string \<rightharpoonup> string)) \<times> event list" where
  "drm_statuses w tasks =
     (if tasks \<noteq> [] then
        (case qstat_all (squeue w) of
           Inl e \<Rightarrow> (Inl e, [Run [''squeue'']])
         | Inr qjobs \<Rightarrow>
             (Inr (py_dict (map (\<lambda>task. (drm_jobID task, drm_status qjobs (drm_jobID task))) tasks)),
              [Run [''squeue'']]))
      else (Inr Map.empty, []))"

subsection \<open>\<open>DRM_SLURM.kill_tasks\<close>\<close>

text \<open>
  \<open>more_itertools.grouper(n, iterable)\<close>: groups of exactly \<open>n\<close> elements, the last one
  filled up with \<open>None\<close>.
\<close>

function grouper :: "nat \<Rightarrow> 'a list \<Rightarrow> 'a option list list" where
  "grouper n xs =
     (if n = 0 \<or> xs = [] then []
      else (map Some (take n xs) @ replicate (n - length (take n xs)) None)
           # grouper n (drop n xs))"
  by pat_completeness auto
termination
  by (relation "measure (\<lambda>(n, xs). length xs)") auto

text \<open>
  How a call of \<open>subprocess.call\<close> ends: it returns the exit status of the command, or
  raises \<open>OSError\<close> when the command cannot be started.
\<close>

datatype call_outcome = Exit_status int | Call_OSError

text \<open>
  The loop over the groups, for an environment \<open>scancel\<close> that says how the call with an
  argument vector ends. An argument with a NUL byte cannot be passed to a command:
  the call raises \<open>TypeError\<close>. An exception ends the loop; an exit status is dropped.
  The result is the exception, if one was raised, and the calls made, in order.
\<close>

fun kill_loop ::
  "(string list \<Rightarrow> call_outcome) \<Rightarrow> task option list list \<Rightarrow> (error + unit) \<times> event list" where
  "kill_loop scancel [] = (Inr (), [])"
| "kill_loop scancel (grp # groups) =
     (let group' = filter (\<lambda>x. x \<noteq> None) grp;
          pids = join '' '' (map (\<lambda>t. drm_jobID (the t)) group');
          argv = [''scancel'', ''-Q'', pids]
      in if CHR 0x00 \<in> set pids then (Inl TypeError, [Run argv])
         else (case scancel argv of
                 Call_OSError \<Rightarrow> (Inl OSError, [Run argv])
               | Exit_status rc \<Rightarrow>
                   (let (r, tr) = kill_loop scancel groups in (r, Run argv # tr))))"

definition kill_tasks ::
  "(string list \<Rightarrow> call_outcome) \<Rightarrow> task list \<Rightarrow> (error + unit) \<times> event list" where
  "kill_tasks scancel tasks = kill_loop scancel (grouper 50 tasks)"

text \<open>The chunks as the specification words them: consecutive pieces of at most \<open>n\<close>.\<close>

function spec_chunks :: "nat \<Rightarrow> 'a list \<Rightarrow> 'a list list" where
  "spec_chunks n xs =
     (if n = 0 \<or> xs = [] then [] else take n xs # spec_chunks n (drop n xs))"
  by pat_completeness auto
termination
  by (relation "measure (\<lambda>(n, xs). length xs)") auto

subsection \<open>Vocabulary of the properties and example inputs\<close>

text \<open>
  Attempt \<open>i\<close> of the query for a job fails or returns empty output: the command exits
  with a status other than 0, or exits with 0 and prints nothing but white space.
\<close>

definition attempt_fails :: "world \<Rightarrow> string \<Rightarrow> nat \<Rightarrow> bool" where
  "attempt_fails w jid i =
     (case fst (scontrol w jid i) of
        Returned out \<Rightarrow> strip out = []
      | Raised_CalledProcessError rc out \<Rightarrow> True
      | Raised_OSError \<Rightarrow> False)"

definition task_4821 :: task where
  "task_4821 = \<lparr>drm_jobID = ''4821'', output_stdout_path = ''out.txt'',
     output_stderr_path = ''err.txt'', drm_native_specification = None,
     output_command_script_path = ''run.sh''\<rparr>"

text \<open>A world in which every command succeeds.\<close>

definition world_ok :: world where
  "world_ok = \<lparr>sbatch = (\<lambda>sub. Returned ''Submitted batch job 4821''),
     squeue = Returned [],
     scontrol = (\<lambda>jid i. (Returned ''JobId=4821 JobState=COMPLETED'', [])),
     elapsed = (\<lambda>jid k. 15 * int k)\<rparr>"

text \<open>A world in which every \<open>scontrol\<close> query exits with status 1 and an error message.\<close>

definition world_failing :: world where
  "world_failing = \<lparr>sbatch = (\<lambda>sub. Returned ''Submitted batch job 4821''),
     squeue = Returned [],
     scontrol = (\<lambda>jid i. (Raised_CalledProcessError 1 [], ''scontrol: error'')),
     elapsed = (\<lambda>jid k. 15 * int k)\<rparr>"

text \<open>A world in which the scheduler has forgotten every job.\<close>

definition world_forgotten :: world where
  "world_forgotten = \<lparr>sbatch = (\<lambda>sub. Returned ''Submitted batch job 4821''),
     squeue = Returned [],
     scontrol = (\<lambda>jid i. (Raised_CalledProcessError 1 [], sentinel)),
     elapsed = (\<lambda>jid k. 15 * int k)\<rparr>"

text \<open>
  A world in which the first two \<open>scontrol\<close> queries for a job fail with an error message
  and the third one finds the job forgotten.
\<close>

definition world_forgotten_later :: world where
  "world_forgotten_later = \<lparr>sbatch = (\<lambda>sub. Returned ''Submitted batch job 4821''),
     squeue = Returned [],
     scontrol = (\<lambda>jid i. if i < 2 then (Raised_CalledProcessError 1 [], ''scontrol: error'')
                           else (Returned [], sentinel)),
     elapsed = (\<lambda>jid k. 15 * int k)\<rparr>"

text \<open>
  Worlds in which \<open>squeue\<close> lists job 4821 in the state \<open>CF\<close> (configuring) and in the
  state \<open>PD\<close> (pending).
\<close>

definition world_configuring :: world where
  "world_configuring = \<lparr>sbatch = (\<lambda>sub. Returned ''Submitted batch job 4821''),
     squeue = Returned (''JOBID ST'' @ [CHR 0x0A] @ ''4821 CF'' @ [CHR 0x0A]),
     scontrol = (\<lambda>jid i. (Returned ''JobId=4821 JobState=COMPLETED'', [])),
     elapsed = (\<lambda>jid k. 15 * int k)\<rparr>"

definition world_pending :: world where
  "world_pending = \<lparr>sbatch = (\<lambda>sub. Returned ''Submitted batch job 4821''),
     squeue = Returned (''JOBID ST'' @ [CHR 0x0A] @ ''4821 PD'' @ [CHR 0x0A]),
     scontrol = (\<lambda>jid i. (Returned ''JobId=4821 JobState=COMPLETED'', [])),
     elapsed = (\<lambda>jid k. 15 * int k)\<rparr>"

text \<open>A world in which \<open>sbatch\<close> exits with status 0 and prints no job number.\<close>

definition world_no_jobid :: world where
  "world_no_jobid = \<lparr>sbatch = (\<lambda>sub. Returned ''Submitted batch job''),
     squeue = Returned [],
     scontrol = (\<lambda>jid i. (Returned ''JobId=4821 JobState=COMPLETED'', [])),
     elapsed = (\<lambda>jid k. 15 * int k)\<rparr>"

text \<open>An environment in which \<open>scancel\<close> always starts and exits with status 0.\<close>

definition scancel_ok :: "string list \<Rightarrow> call_outcome" where
  "scancel_ok argv = Exit_status 0"

text \<open>An environment in which \<open>scancel\<close> cannot be started (it is not installed).\<close>

definition scancel_missing :: "string list \<Rightarrow> call_outcome" where
  "scancel_missing argv = Call_OSError"

text \<open>The four decimal digits of a number below 10000, as a job identifier.\<close>

definition job_number :: "nat \<Rightarrow> string" where
  "job_number n =
     map (\<lambda>d. ''0123456789'' ! (d mod 10)) [n div 1000, n div 100, n div 10, n]"

definition task_numbered :: "nat \<Rightarrow> task" where
  "task_numbered n = task_4821\<lparr>drm_jobID := job_number n\<rparr>"

text \<open>120 tasks with the job identifiers 4821 to 4940.\<close>

definition tasks_120 :: "task list" where
  "tasks_120 = map (\<lambda>i. task_numbered (4821 + i)) [0..<120]"

declare split_ws.simps [simp del]
declare re_split_ws.simps [simp del]
declare qacct_loop.simps [simp del]
declare grouper.simps [simp del]
declare spec_chunks.simps [simp del]

section \<open>Properties\<close>

subsection \<open>String primitives\<close>

lemma find_char_ge: "- 1 \<le> find_char c xs"
  by (induction xs) (auto simp: Let_def)

lemma find_char_absent: "find_char c xs = - 1 \<longleftrightarrow> c \<notin> set xs"
proof (induction xs)
  case Nil
  show ?case by simp
next
  case (Cons x xs)
  show ?case using Cons.IH find_char_ge [of c xs] by (auto simp: Let_def)
qed

lemma find_char_index:
  "c \<in> set xs \<Longrightarrow> find_char c xs = int (length (takeWhile (\<lambda>x. x \<noteq> c) xs))"
proof (induction xs)
  case Nil
  then show ?case by simp
next
  case (Cons x xs)
  then show ?case using find_char_absent [of c xs] by (auto simp: Let_def)
qed

lemma take_find_char:
  "c \<in> set xs \<Longrightarrow> take (nat (find_char c xs)) xs = takeWhile (\<lambda>x. x \<noteq> c) xs"
  using takeWhile_eq_take [of "\<lambda>x. x \<noteq> c" xs] by (simp add: find_char_index)

lemma drop_find_char:
  "c \<in> set xs \<Longrightarrow> drop (nat (find_char c xs + 1)) xs = tl (dropWhile (\<lambda>x. x \<noteq> c) xs)"
  using dropWhile_eq_drop [of "\<lambda>x. x \<noteq> c" xs]
  by (simp add: find_char_index nat_add_distrib tl_drop drop_Suc)

lemma split_at_nonempty: "split_at P s \<noteq> []"
  by (induction s) (auto split: list.splits)

lemma split_at_unfold:
  "split_at P s = takeWhile (\<lambda>x. \<not> P x) s #
     (case dropWhile (\<lambda>x. \<not> P x) s of [] \<Rightarrow> [] | c # r \<Rightarrow> split_at P r)"
proof (induction s)
  case Nil
  show ?case by simp
next
  case (Cons a s)
  show ?case using split_at_nonempty [of P s] Cons.IH
    by (cases "split_at P s") auto
qed

lemma split_at_all: "\<forall>c\<in>set ws. P c \<Longrightarrow> split_at P ws = replicate (Suc (length ws)) []"
  by (induction ws) auto

lemma split_at_append_seps:
  "\<forall>c\<in>set ws. P c \<Longrightarrow> split_at P (s @ ws) = split_at P s @ replicate (length ws) []"
proof (induction s)
  case Nil
  then show ?case by (simp add: split_at_all)
next
  case (Cons a s)
  then show ?case using split_at_nonempty [of P s]
    by (cases "split_at P s") auto
qed

lemma spec_tokens_space: "is_space c \<Longrightarrow> spec_tokens (c # s) = spec_tokens s"
  by (simp add: spec_tokens_def)

lemma spec_tokens_Nil: "spec_tokens [] = []"
  by (simp add: spec_tokens_def)

lemma spec_tokens_dropWhile: "spec_tokens (dropWhile is_space s) = spec_tokens s"
  by (induction s) (simp_all add: spec_tokens_space)

lemma spec_tokens_word:
  assumes "\<not> is_space c"
  shows "spec_tokens (c # cs) = takeWhile (\<lambda>x. \<not> is_space x) (c # cs) #
             spec_tokens (dropWhile (\<lambda>x. \<not> is_space x) cs)"
proof -
  let ?w = "takeWhile (\<lambda>x. \<not> is_space x) (c # cs)"
  let ?r = "dropWhile (\<lambda>x. \<not> is_space x) cs"
  have w: "?w \<noteq> []" using assms by simp
  have u: "split_at is_space (c # cs) =
      ?w # (case ?r of [] \<Rightarrow> [] | d # r \<Rightarrow> split_at is_space r)"
    using split_at_unfold [of is_space "c # cs"] assms by simp
  show ?thesis
  proof (cases ?r)
    case Nil
    have "spec_tokens (c # cs) = [?w]"
      unfolding spec_tokens_def u Nil using w by simp
    then show ?thesis unfolding Nil spec_tokens_Nil .
  next
    case (Cons d r)
    then have d: "is_space d" using hd_dropWhile [of "\<lambda>x. \<not> is_space x" cs] by auto
    have "spec_tokens (c # cs) = ?w # spec_tokens r"
      unfolding spec_tokens_def u Cons using w by simp
    then show ?thesis unfolding Cons spec_tokens_space [OF d] .
  qed
qed

text \<open>\<open>s.split()\<close> gives the non-empty pieces of the text cut at every white-space character.\<close>

lemma split_ws_spec: "split_ws s = spec_tokens s"
proof (induction s rule: split_ws.induct)
  case (1 s)
  show ?case
  proof (cases "dropWhile is_space s")
    case Nil
    have "split_ws s = []" by (subst split_ws.simps) (simp only: Nil list.case)
    moreover have "spec_tokens s = []"
      using spec_tokens_dropWhile [of s] unfolding Nil spec_tokens_Nil by simp
    ultimately show ?thesis by simp
  next
    case (Cons c cs)
    then have c: "\<not> is_space c" using hd_dropWhile [of is_space s] by auto
    have "split_ws s = takeWhile (\<lambda>x. \<not> is_space x) (c # cs) #
             split_ws (dropWhile (\<lambda>x. \<not> is_space x) cs)"
      by (subst split_ws.simps) (simp only: Cons list.case)
    also have "\<dots> = spec_tokens (c # cs)"
      using "1.IH" [OF Cons] spec_tokens_word [OF c, of cs] by simp
    also have "\<dots> = spec_tokens s"
      using spec_tokens_dropWhile [of s] unfolding Cons by simp
    finally show ?thesis .
  qed
qed

lemma spec_tokens_append_spaces:
  "\<forall>c\<in>set ws. is_space c \<Longrightarrow> spec_tokens (s @ ws) = spec_tokens s"
  by (simp add: spec_tokens_def split_at_append_seps)

lemma strip_decompose:
  "dropWhile is_space s = strip s @ rev (takeWhile is_space (rev (dropWhile is_space s)))"
proof -
  let ?t = "rev (dropWhile is_space s)"
  have "rev (dropWhile is_space ?t) @ rev (takeWhile is_space ?t)
      = rev (takeWhile is_space ?t @ dropWhile is_space ?t)"
    by (simp only: rev_append)
  also have "\<dots> = rev ?t" by (simp only: takeWhile_dropWhile_id)
  also have "\<dots> = dropWhile is_space s" by (simp only: rev_rev_ident)
  finally show ?thesis by (simp only: strip_def)
qed

lemma spec_tokens_strip: "spec_tokens (strip s) = spec_tokens s"
proof -
  let ?ws = "rev (takeWhile is_space (rev (dropWhile is_space s)))"
  have "\<forall>c\<in>set ?ws. is_space c" by (auto dest: set_takeWhileD)
  then have "spec_tokens (strip s @ ?ws) = spec_tokens (strip s)"
    by (rule spec_tokens_append_spaces)
  then show ?thesis using strip_decompose [of s] spec_tokens_dropWhile [of s] by simp
qed

subsection \<open>The parser\<close>

lemma parse_loop_spec:
  "(\<forall>key. k = Some key \<longrightarrow> key \<in> dom acct) \<Longrightarrow>
   parse_loop jid raw acct k toks = spec_parse_tokens jid raw acct k toks"
proof (induction toks arbitrary: acct k)
  case Nil
  show ?case by simp
next
  case (Cons kv rest)
  show ?case
  proof (cases "CHR ''='' \<in> set kv")
    case True
    then have f: "find_char CHR ''='' kv \<noteq> - 1" by (simp add: find_char_absent)
    define key where "key = takeWhile (\<lambda>c. c \<noteq> CHR ''='') kv"
    define v where "v = tl (dropWhile (\<lambda>c. c \<noteq> CHR ''='') kv)"
    have "parse_loop jid raw (acct(key \<mapsto> v)) (Some key) rest
        = spec_parse_tokens jid raw (acct(key \<mapsto> v)) (Some key) rest"
      by (rule Cons.IH) auto
    with True f show ?thesis
      by (simp add: Let_def take_find_char drop_find_char key_def v_def)
  next
    case False
    then have f: "find_char CHR ''='' kv = - 1" by (simp add: find_char_absent)
    show ?thesis
    proof (cases k)
      case None
      with f False show ?thesis by simp
    next
      case (Some key)
      with Cons.prems obtain v where v: "acct key = Some v" by auto
      have "parse_loop jid raw (acct(key \<mapsto> v @ '' '' @ kv)) (Some key) rest
        = spec_parse_tokens jid raw (acct(key \<mapsto> v @ '' '' @ kv)) (Some key) rest"
        by (rule Cons.IH) auto
      with f False Some v show ?thesis by simp
    qed
  qed
qed

lemma parse_acct_spec: "parse_acct jid raw = spec_parse jid raw"
  by (simp add: parse_acct_def spec_parse_def split_ws_spec spec_tokens_strip parse_loop_spec)

lemma tokens_merge_example: "spec_tokens ''A=1 extra B=2'' = [''A=1'', ''extra'', ''B=2'']"
  by (simp add: spec_tokens_def is_space_def)

text \<open>
  C5. On every text the parser of \<open>_qacct_raw\<close> computes what the specification says:
  the text is cut into its white-space separated tokens, a token with \<open>=\<close> is cut at
  its first \<open>=\<close> into key and value and starts or overwrites the current entry, and a
  token without \<open>=\<close> is appended to the value of the current entry after one space.
  Parsing \<open>A=1 extra B=2\<close> gives \<open>{A: "1 extra", B: "2"}\<close>.
\<close>

theorem parser_refines_spec:
  "parse_acct jid raw = spec_parse jid raw
   \<and> parse_acct jid ''A=1 extra B=2'' = Inr [''A'' \<mapsto> ''1 extra'', ''B'' \<mapsto> ''2'']"
  by (simp add: parse_acct_spec spec_parse_def tokens_merge_example)

text \<open>
  C6. When the first token of the text contains no \<open>=\<close>, the parser fails with the
  error that carries the job identifier, the full raw text and the offending token.
\<close>

theorem parser_continuation_without_key:
  assumes "spec_tokens raw = tok # rest" and "CHR ''='' \<notin> set tok"
  shows "parse_acct jid raw = Inl (EnvironmentError jid raw tok)"
  using assms by (simp add: parse_acct_spec spec_parse_def)

theorem parser_continuation_without_key_witness:
  "spec_tokens ''extra B=2'' = [''extra'', ''B=2''] \<and> CHR ''='' \<notin> set ''extra''
   \<and> parse_acct ''4821'' ''extra B=2'' = Inl (EnvironmentError ''4821'' ''extra B=2'' ''extra'')"
proof -
  have t: "spec_tokens ''extra B=2'' = [''extra'', ''B=2'']"
    by (simp add: spec_tokens_def is_space_def)
  have e: "CHR ''='' \<notin> set ''extra''" by simp
  show ?thesis using t e parser_continuation_without_key [OF t e, of "''4821''"] by simp
qed

subsection \<open>Accounting retrieval: one attempt\<close>

lemma count_runs_Nil: "count_runs c [] = 0"
  by (simp add: count_runs_def)

lemma count_runs_append: "count_runs c (xs @ ys) = count_runs c xs + count_runs c ys"
  by (simp add: count_runs_def)

lemma count_runs_Cons_scontrol:
  "count_runs ''scontrol'' (Run (scontrol_argv jid) # tr) = Suc (count_runs ''scontrol'' tr)"
  by (simp add: count_runs_def scontrol_argv_def)

lemma count_runs_log_failure: "count_runs c (log_failure jid rc out err) = 0"
  by (simp add: count_runs_def log_failure_def)

lemma count_runs_between: "count_runs c (between_attempts w jid q n i) = 0"
  by (simp add: count_runs_def between_attempts_def)

lemma strip_sentinel: "strip sentinel = sentinel"
  by (simp add: strip_def sentinel_def is_space_def)

lemma after_query_cases:
  "after_query jid rc out err =
     (if strip err = sentinel then (Return [''JobId'' \<mapsto> jid], [])
      else (Fall_through, log_failure jid rc out (strip err)))"
  by (auto simp: after_query_def Let_def)

lemma qacct_attempt_fails:
  assumes "attempt_fails w jid i" and "strip (snd (scontrol w jid i)) \<noteq> sentinel"
  shows "\<exists>ev. qacct_attempt w jid i = (Fall_through, Run (scontrol_argv jid) # ev)
            \<and> count_runs ''scontrol'' ev = 0"
  using assms
  by (cases "scontrol w jid i"; cases "fst (scontrol w jid i)")
     (auto simp: qacct_attempt_def attempt_fails_def after_query_cases count_runs_log_failure)

lemma qacct_attempt_sentinel:
  assumes "attempt_fails w jid i" and "strip (snd (scontrol w jid i)) = sentinel"
  shows "qacct_attempt w jid i = (Return [''JobId'' \<mapsto> jid], [Run (scontrol_argv jid)])"
  using assms
  by (cases "scontrol w jid i"; cases "fst (scontrol w jid i)")
     (auto simp: qacct_attempt_def attempt_fails_def after_query_cases)

lemma qacct_attempt_count:
  "count_runs ''scontrol'' (snd (qacct_attempt w jid i)) = 1"
  by (cases "scontrol w jid i"; cases "fst (scontrol w jid i)")
     (auto simp: qacct_attempt_def after_query_cases count_runs_log_failure
        count_runs_Cons_scontrol count_runs_Nil)

subsection \<open>Accounting retrieval: the retry loop\<close>

lemma qacct_loop_done:
  "\<not> int i < n \<Longrightarrow> qacct_loop w jid q n i =
     (if i = 0 then (Inl (UnboundLocalError ''i''), [])
      else (Inl (ValueError jid (int i - 1) (elapsed w jid i)), []))"
  by (subst qacct_loop.simps) simp

lemma qacct_loop_step_fail:
  assumes "int i < n" and "attempt_fails w jid i"
    and "strip (snd (scontrol w jid i)) \<noteq> sentinel"
  shows "fst (qacct_loop w jid q n i) = fst (qacct_loop w jid q n (Suc i))"
    and "count_runs ''scontrol'' (snd (qacct_loop w jid q n i))
         = Suc (count_runs ''scontrol'' (snd (qacct_loop w jid q n (Suc i))))"
    and "snd (qacct_loop w jid q n (Suc i)) \<noteq> [] \<Longrightarrow>
         snd (qacct_loop w jid q n i) \<noteq> [] \<and>
         last (snd (qacct_loop w jid q n i)) = last (snd (qacct_loop w jid q n (Suc i)))"
proof -
  from qacct_attempt_fails [OF assms(2,3)] obtain ev where
    ev: "qacct_attempt w jid i = (Fall_through, Run (scontrol_argv jid) # ev)"
    and c: "count_runs ''scontrol'' ev = 0" by blast
  obtain r tr where rt: "qacct_loop w jid q n (Suc i) = (r, tr)" by (cases "qacct_loop w jid q n (Suc i)")
  have u: "qacct_loop w jid q n i
      = (r, (Run (scontrol_argv jid) # ev) @ between_attempts w jid q n i @ tr)"
    using assms(1) ev rt by (subst qacct_loop.simps) simp
  show "fst (qacct_loop w jid q n i) = fst (qacct_loop w jid q n (Suc i))"
    by (simp add: u rt)
  show "count_runs ''scontrol'' (snd (qacct_loop w jid q n i))
         = Suc (count_runs ''scontrol'' (snd (qacct_loop w jid q n (Suc i))))"
    using c by (simp add: u rt count_runs_append count_runs_Cons_scontrol count_runs_between
        del: append_Cons)
  show "snd (qacct_loop w jid q n i) \<noteq> [] \<and>
         last (snd (qacct_loop w jid q n i)) = last (snd (qacct_loop w jid q n (Suc i)))"
    if "snd (qacct_loop w jid q n (Suc i)) \<noteq> []"
    using that by (simp add: u rt)
qed

lemma qacct_loop_step_sentinel:
  assumes "int i < n" and "attempt_fails w jid i"
    and "strip (snd (scontrol w jid i)) = sentinel"
  shows "qacct_loop w jid q n i = (Inr [''JobId'' \<mapsto> jid], [Run (scontrol_argv jid)])"
  using assms(1) qacct_attempt_sentinel [OF assms(2,3)]
  by (subst qacct_loop.simps) simp

lemma qacct_loop_sentinel:
  assumes "int k < n" and "attempt_fails w jid k"
    and "strip (snd (scontrol w jid k)) = sentinel"
    and "\<forall>j<k. attempt_fails w jid j \<and> strip (snd (scontrol w jid j)) \<noteq> sentinel"
    and "i \<le> k"
  shows "fst (qacct_loop w jid q n i) = Inr [''JobId'' \<mapsto> jid]
       \<and> count_runs ''scontrol'' (snd (qacct_loop w jid q n i)) = Suc k - i
       \<and> snd (qacct_loop w jid q n i) \<noteq> []
       \<and> last (snd (qacct_loop w jid q n i)) = Run (scontrol_argv jid)"
  using assms(5)
proof (induction "k - i" arbitrary: i)
  case 0
  then have "i = k" by simp
  then show ?case
    using qacct_loop_step_sentinel [OF assms(1,2,3), of q]
    by (auto simp: count_runs_Cons_scontrol count_runs_Nil)
next
  case (Suc d)
  then have lt: "i < k" and d: "d = k - Suc i" and le: "Suc i \<le> k" by simp_all
  from lt assms(1) have in_range: "int i < n" by simp
  from lt assms(4) have f: "attempt_fails w jid i"
    and s: "strip (snd (scontrol w jid i)) \<noteq> sentinel" by simp_all
  note IH = Suc.hyps(1) [OF d le]
  note step = qacct_loop_step_fail [OF in_range f s, of q]
  from IH step lt show ?case by simp
qed

lemma qacct_loop_exhausted:
  assumes "\<forall>j. int j < n \<longrightarrow> attempt_fails w jid j \<and> strip (snd (scontrol w jid j)) \<noteq> sentinel"
    and "0 < n" and "int i \<le> n"
  shows "fst (qacct_loop w jid q n i) = Inl (ValueError jid (n - 1) (elapsed w jid (nat n)))
       \<and> count_runs ''scontrol'' (snd (qacct_loop w jid q n i)) = nat n - i"
  using assms(3)
proof (induction "nat n - i" arbitrary: i)
  case 0
  then have e: "int i = n" by simp
  then have "\<not> int i < n" and "i \<noteq> 0" and "nat n = i" using assms(2) by auto
  then show ?case using e by (simp add: qacct_loop_done count_runs_Nil)
next
  case (Suc d)
  then have lt: "int i < n" and d: "d = nat n - Suc i" and le: "int (Suc i) \<le> n" by auto
  from lt assms(1) have f: "attempt_fails w jid i"
    and s: "strip (snd (scontrol w jid i)) \<noteq> sentinel" by simp_all
  note IH = Suc.hyps(1) [OF d le]
  note step = qacct_loop_step_fail(1,2) [OF lt f s, of q]
  from IH step lt show ?case by (simp add: Suc_diff_Suc)
qed

lemma qacct_loop_count_le:
  "count_runs ''scontrol'' (snd (qacct_loop w jid q n i)) \<le> nat (n - int i)"
proof (induction w jid q n i rule: qacct_loop.induct)
  case (1 w jid q n i)
  show ?case
  proof (cases "int i < n")
    case False
    then show ?thesis by (simp add: qacct_loop_done count_runs_Nil)
  next
    case True
    obtain a ev where a: "qacct_attempt w jid i = (a, ev)" by (cases "qacct_attempt w jid i")
    have c: "count_runs ''scontrol'' ev = 1" using qacct_attempt_count [of w jid i] a by simp
    show ?thesis
    proof (cases a)
      case Fall_through
      obtain r tr where rt: "qacct_loop w jid q n (Suc i) = (r, tr)"
        by (cases "qacct_loop w jid q n (Suc i)")
      have "count_runs ''scontrol'' tr \<le> nat (n - int (Suc i))"
        using "1.IH" [OF True a [symmetric] Fall_through] rt by simp
      moreover have "qacct_loop w jid q n i = (r, ev @ between_attempts w jid q n i @ tr)"
        using True a Fall_through rt by (subst qacct_loop.simps) simp
      ultimately show ?thesis using c True
        by (simp add: count_runs_append count_runs_between)
    next
      case (Break out)
      then have "qacct_loop w jid q n i = (parse_acct jid out, ev)"
        using True a by (subst qacct_loop.simps) simp
      then show ?thesis using c True by simp
    next
      case (Return d)
      then have "qacct_loop w jid q n i = (Inr d, ev)"
        using True a by (subst qacct_loop.simps) simp
      then show ?thesis using c True by simp
    next
      case (Raise e)
      then have "qacct_loop w jid q n i = (Inl e, ev)"
        using True a by (subst qacct_loop.simps) simp
      then show ?thesis using c True by simp
    qed
  qed
qed

text \<open>
  C3. When the attempts before attempt \<open>k\<close> fail (or return empty output) without the
  sentinel, and attempt \<open>k\<close>, which is within the retry budget, fails (or returns empty
  output) with a standard error text equal to the sentinel, \<open>_qacct_raw\<close> returns the
  record \<open>{JobId: <id>}\<close>, not an error, after exactly \<open>k + 1\<close> queries, and the query is
  the last thing it does. With \<open>k = 0\<close>: the sentinel on the first attempt, one query.
\<close>

theorem sentinel_short_circuit:
  assumes "quantum \<noteq> 0" and "int k < timeout div quantum"
    and "\<forall>j<k. attempt_fails w (drm_jobID task) j
               \<and> strip (snd (scontrol w (drm_jobID task) j)) \<noteq> sentinel"
    and "attempt_fails w (drm_jobID task) k"
    and "snd (scontrol w (drm_jobID task) k) = sentinel"
  shows "fst (qacct_raw w task timeout quantum) = Inr [''JobId'' \<mapsto> drm_jobID task]
       \<and> count_runs ''scontrol'' (snd (qacct_raw w task timeout quantum)) = Suc k
       \<and> last (snd (qacct_raw w task timeout quantum)) = Run (scontrol_argv (drm_jobID task))"
proof -
  have s: "strip (snd (scontrol w (drm_jobID task) k)) = sentinel"
    using assms(5) by (simp add: strip_sentinel)
  show ?thesis
    using qacct_loop_sentinel [OF assms(2,4) s assms(3), of 0 quantum] assms(1)
    by (simp add: qacct_raw_def)
qed

lemma strip_error_text: "strip ''scontrol: error'' \<noteq> sentinel"
  by (simp add: strip_def sentinel_def is_space_def)

theorem sentinel_short_circuit_witness:
  "fst (qacct_raw world_forgotten task_4821 600 15) = Inr [''JobId'' \<mapsto> ''4821'']
   \<and> count_runs ''scontrol'' (snd (qacct_raw world_forgotten task_4821 600 15)) = 1
   \<and> fst (qacct_raw world_forgotten_later task_4821 600 15) = Inr [''JobId'' \<mapsto> ''4821'']
   \<and> count_runs ''scontrol'' (snd (qacct_raw world_forgotten_later task_4821 600 15)) = 3
   \<and> last (snd (qacct_raw world_forgotten_later task_4821 600 15))
       = Run [''scontrol'', ''show'', ''jobid'', ''-d'', ''-o'', ''4821'']"
proof -
  have q: "(15::int) \<noteq> 0" by simp
  have k0: "int 0 < 600 div 15" and k2: "int 2 < 600 div 15" by simp_all
  have a0: "\<forall>j<0. attempt_fails world_forgotten (drm_jobID task_4821) j
      \<and> strip (snd (scontrol world_forgotten (drm_jobID task_4821) j)) \<noteq> sentinel" by simp
  have f0: "attempt_fails world_forgotten (drm_jobID task_4821) 0"
    by (simp add: attempt_fails_def world_forgotten_def)
  have s0: "snd (scontrol world_forgotten (drm_jobID task_4821) 0) = sentinel"
    by (simp add: world_forgotten_def)
  have a2: "\<forall>j<2. attempt_fails world_forgotten_later (drm_jobID task_4821) j
      \<and> strip (snd (scontrol world_forgotten_later (drm_jobID task_4821) j)) \<noteq> sentinel"
    by (simp add: attempt_fails_def world_forgotten_later_def strip_error_text)
  have f2: "attempt_fails world_forgotten_later (drm_jobID task_4821) 2"
    by (simp add: attempt_fails_def world_forgotten_later_def strip_def)
  have s2: "snd (scontrol world_forgotten_later (drm_jobID task_4821) 2) = sentinel"
    by (simp add: world_forgotten_later_def)
  show ?thesis
    using sentinel_short_circuit [OF q k0 a0 f0 s0] sentinel_short_circuit [OF q k2 a2 f2 s2]
    by (simp add: task_4821_def scontrol_argv_def)
qed

text \<open>
  C2, as amended. For a positive timeout and a positive quantum, \<open>_qacct_raw\<close> makes at
  most \<open>timeout div quantum\<close> queries (the quotient rounded down, with no minimum), and
  exactly that many when every query fails without the sentinel. When the timeout is
  smaller than the quantum, it makes no query at all and ends with an exception.
\<close>

theorem attempts_bounded_by_quotient:
  assumes "0 < timeout" and "0 < quantum"
  shows "count_runs ''scontrol'' (snd (qacct_raw w task timeout quantum)) \<le> nat (timeout div quantum)
     \<and> ((\<forall>j. attempt_fails w (drm_jobID task) j
              \<and> strip (snd (scontrol w (drm_jobID task) j)) \<noteq> sentinel)
          \<longrightarrow> count_runs ''scontrol'' (snd (qacct_raw w task timeout quantum))
                = nat (timeout div quantum))
     \<and> (timeout < quantum
          \<longrightarrow> count_runs ''scontrol'' (snd (qacct_raw w task timeout quantum)) = 0
              \<and> isl (fst (qacct_raw w task timeout quantum)))"
proof (intro conjI impI)
  let ?n = "timeout div quantum"
  have q: "quantum \<noteq> 0" using assms(2) by simp
  have raw: "qacct_raw w task timeout quantum = qacct_loop w (drm_jobID task) quantum ?n 0"
    using q by (simp add: qacct_raw_def)
  show "count_runs ''scontrol'' (snd (qacct_raw w task timeout quantum)) \<le> nat ?n"
    using qacct_loop_count_le [of w "drm_jobID task" quantum ?n 0] by (simp add: raw)
  show "count_runs ''scontrol'' (snd (qacct_raw w task timeout quantum)) = nat ?n"
    if all: "\<forall>j. attempt_fails w (drm_jobID task) j
              \<and> strip (snd (scontrol w (drm_jobID task) j)) \<noteq> sentinel"
  proof (cases "0 < ?n")
    case True
    from all have "\<forall>j. int j < ?n \<longrightarrow> attempt_fails w (drm_jobID task) j
              \<and> strip (snd (scontrol w (drm_jobID task) j)) \<noteq> sentinel" by simp
    from qacct_loop_exhausted [OF this True, of 0 quantum] True show ?thesis
      by (simp add: raw)
  next
    case False
    then show ?thesis by (simp add: raw qacct_loop_done count_runs_Nil)
  qed
  assume lt: "timeout < quantum"
  then have z: "?n = 0" using assms(1) by simp
  show "count_runs ''scontrol'' (snd (qacct_raw w task timeout quantum)) = 0"
    by (simp add: raw z qacct_loop_done count_runs_Nil)
  show "isl (fst (qacct_raw w task timeout quantum))"
    by (simp add: raw z qacct_loop_done)
qed

text \<open>
  C2, as stated, fails: with a timeout of 10 and a quantum of 15 no query is made, even
  in a world where the first query would have succeeded.
\<close>

theorem minimum_one_attempt_counterexample:
  "(10::int) div 15 = 0
   \<and> count_runs ''scontrol'' (snd (qacct_raw world_ok task_4821 10 15)) = 0
   \<and> fst (qacct_raw world_ok task_4821 10 15) = Inl (UnboundLocalError ''i'')"
  by (simp add: qacct_raw_def qacct_loop_done count_runs_Nil)

lemma world_failing_fails:
  "\<forall>j. attempt_fails world_failing jid j \<and> strip (snd (scontrol world_failing jid j)) \<noteq> sentinel"
  by (simp add: attempt_fails_def world_failing_def strip_error_text)

theorem attempts_bounded_by_quotient_witness:
  "(0::int) < 600 \<and> (0::int) < 15
   \<and> count_runs ''scontrol'' (snd (qacct_raw world_failing task_4821 600 15)) = 40
   \<and> (10::int) < 15
   \<and> count_runs ''scontrol'' (snd (qacct_raw world_failing task_4821 10 15)) = 0
   \<and> isl (fst (qacct_raw world_failing task_4821 10 15))"
proof -
  have t: "(0::int) < 600" and t': "(0::int) < 10" and q: "(0::int) < 15" by simp_all
  show ?thesis
    using attempts_bounded_by_quotient [OF t q, of world_failing task_4821]
      attempts_bounded_by_quotient [OF t' q, of world_failing task_4821]
      world_failing_fails [of "drm_jobID task_4821"]
    by simp
qed

text \<open>
  C4. With the default timeout 600 and quantum 15 and a query that fails every time,
  \<open>_qacct_raw\<close> makes 40 queries and then raises the \<open>ValueError\<close> built from the job
  identifier, the number 39 (the last loop index, where the message says \<open>tries\<close>) and
  the elapsed time.
\<close>

theorem retry_exhausted_reports_last_index:
  "count_runs ''scontrol'' (snd (qacct_raw world_failing task_4821 600 15)) = 40
   \<and> fst (qacct_raw world_failing task_4821 600 15) = Inl (ValueError ''4821'' 39 600)"
proof -
  have n: "(0::int) < 40" and i: "int 0 \<le> 40" by simp_all
  have all: "\<forall>j. int j < 40 \<longrightarrow> attempt_fails world_failing ''4821'' j
      \<and> strip (snd (scontrol world_failing ''4821'' j)) \<noteq> sentinel"
    using world_failing_fails [of "''4821''"] by simp
  have e: "elapsed world_failing ''4821'' (nat 40) = 600" by (simp add: world_failing_def)
  show ?thesis
    using qacct_loop_exhausted [OF all n i, of 15] e
    by (simp add: qacct_raw_def task_4821_def)
qed

subsection \<open>The status table\<close>

lemma re_split_ws_nonempty: "re_split_ws s \<noteq> []"
  by (subst re_split_ws.simps) (simp split: list.splits)

lemma qstat_rows_total: "\<exists>t. qstat_rows keys bjobs ls = Inr t"
proof (induction ls arbitrary: bjobs)
  case Nil
  show ?case by simp
next
  case (Cons l ls)
  obtain item0 items where i: "re_split_ws (strip l) = item0 # items"
    using re_split_ws_nonempty [of "strip l"] by (cases "re_split_ws (strip l)") auto
  show ?case using Cons.IH by (simp add: i)
qed

lemma qstat_all_total: "\<exists>qjobs. qstat_all run = Inr qjobs"
proof (cases run)
  case (Returned out)
  obtain line0 lines where l: "split_at (\<lambda>c. c = CHR 0x0A) (strip out) = line0 # lines"
    using split_at_nonempty [of "\<lambda>c. c = CHR 0x0A" "strip out"]
    by (cases "split_at (\<lambda>c. c = CHR 0x0A) (strip out)") auto
  show ?thesis using qstat_rows_total by (simp add: qstat_all_def Returned l)
qed (simp_all add: qstat_all_def)

text \<open>
  C7. When \<open>squeue\<close> exits with a status other than 0 (\<open>CalledProcessError\<close>) or cannot
  be started (\<open>OSError\<close>), \<open>_qstat_all\<close> returns the empty table and raises nothing.
\<close>

theorem bulk_query_fail_open:
  "qstat_all (Raised_CalledProcessError rc out) = Inr Map.empty
   \<and> qstat_all Raised_OSError = Inr Map.empty"
  by (simp add: qstat_all_def)

lemma foldl_upd_lookup:
  "foldl (\<lambda>m (k, v). m(k \<mapsto> v)) m0 (map (\<lambda>t. (f t, g (f t))) ts) k
     = (if k \<in> f ` set ts then Some (g k) else m0 k)"
  by (induction ts arbitrary: m0) auto

lemma py_dict_lookup:
  "py_dict (map (\<lambda>t. (f t, g (f t))) ts) k = (if k \<in> f ` set ts then Some (g k) else None)"
  by (simp add: py_dict_def foldl_upd_lookup)

text \<open>
  C10. For no tasks \<open>drm_statuses\<close> returns the empty dictionary and runs nothing. For a
  non-empty list of tasks it runs \<open>squeue\<close> once and returns a dictionary whose keys are
  the job identifiers of the tasks; the value of a job is the \<open>ST\<close> field of its row in
  the table of \<open>_qstat_all\<close>, and \<open>???\<close> when the job has no row or the row no \<open>ST\<close>.
\<close>

theorem drm_statuses_lookup:
  "drm_statuses w [] = (Inr Map.empty, [])
   \<and> (tasks \<noteq> [] \<longrightarrow>
        (\<exists>qjobs m. qstat_all (squeue w) = Inr qjobs
           \<and> drm_statuses w tasks = (Inr m, [Run [''squeue'']])
           \<and> dom m = drm_jobID ` set tasks
           \<and> (\<forall>task\<in>set tasks. m (drm_jobID task) =
                 Some (case qjobs (drm_jobID task) of
                         None \<Rightarrow> ''???''
                       | Some row \<Rightarrow> (case row ''ST'' of None \<Rightarrow> ''???'' | Some st \<Rightarrow> st)))))"
proof (intro conjI impI)
  show "drm_statuses w [] = (Inr Map.empty, [])" by (simp add: drm_statuses_def)
next
  assume ne: "tasks \<noteq> []"
  obtain qjobs where q: "qstat_all (squeue w) = Inr qjobs" using qstat_all_total by blast
  let ?m = "py_dict (map (\<lambda>task. (drm_jobID task, drm_status qjobs (drm_jobID task))) tasks)"
  have r: "drm_statuses w tasks = (Inr ?m, [Run [''squeue'']])"
    using ne q by (simp add: drm_statuses_def)
  have l: "?m k = (if k \<in> drm_jobID ` set tasks then Some (drm_status qjobs k) else None)" for k
    by (rule py_dict_lookup)
  have d: "dom ?m = drm_jobID ` set tasks"
    by (auto simp: dom_def l)
  have v: "\<forall>task\<in>set tasks. ?m (drm_jobID task) =
      Some (case qjobs (drm_jobID task) of
              None \<Rightarrow> ''???''
            | Some row \<Rightarrow> (case row ''ST'' of None \<Rightarrow> ''???'' | Some st \<Rightarrow> st))"
  proof
    fix task assume "task \<in> set tasks"
    then have "?m (drm_jobID task) = Some (drm_status qjobs (drm_jobID task))"
      by (simp add: l)
    moreover have "drm_status qjobs (drm_jobID task) =
        (case qjobs (drm_jobID task) of
              None \<Rightarrow> ''???''
            | Some row \<Rightarrow> (case row ''ST'' of None \<Rightarrow> ''???'' | Some st \<Rightarrow> st))"
      by (simp add: drm_status_def split: option.splits)
    ultimately show "?m (drm_jobID task) =
      Some (case qjobs (drm_jobID task) of
              None \<Rightarrow> ''???''
            | Some row \<Rightarrow> (case row ''ST'' of None \<Rightarrow> ''???'' | Some st \<Rightarrow> st))"
      by simp
  qed
  from q r d v show "\<exists>qjobs m. qstat_all (squeue w) = Inr qjobs
           \<and> drm_statuses w tasks = (Inr m, [Run [''squeue'']])
           \<and> dom m = drm_jobID ` set tasks
           \<and> (\<forall>task\<in>set tasks. m (drm_jobID task) =
                 Some (case qjobs (drm_jobID task) of
                         None \<Rightarrow> ''???''
                       | Some row \<Rightarrow> (case row ''ST'' of None \<Rightarrow> ''???'' | Some st \<Rightarrow> st)))"
    by blast
qed

lemma qstat_pending:
  "qstat_all (squeue world_pending) = Inr [''4821'' \<mapsto> [''JOBID'' \<mapsto> ''4821'', ''ST'' \<mapsto> ''PD'']]"
  by (simp add: qstat_all_def world_pending_def strip_def is_space_def re_split_ws.simps py_dict_def)

lemma qstat_configuring:
  "qstat_all (squeue world_configuring) = Inr [''4821'' \<mapsto> [''JOBID'' \<mapsto> ''4821'', ''ST'' \<mapsto> ''CF'']]"
  by (simp add: qstat_all_def world_configuring_def strip_def is_space_def re_split_ws.simps py_dict_def)

theorem drm_statuses_lookup_witness:
  "[task_4821] \<noteq> []
   \<and> snd (drm_statuses world_pending [task_4821]) = [Run [''squeue'']]
   \<and> \<not> isl (fst (drm_statuses world_pending [task_4821]))
   \<and> projr (fst (drm_statuses world_pending [task_4821])) ''4821'' = Some ''PD''"
proof -
  have ne: "[task_4821] \<noteq> []" by simp
  from drm_statuses_lookup [of world_pending "[task_4821]"] ne
  obtain qjobs m where q: "qstat_all (squeue world_pending) = Inr qjobs"
    and r: "drm_statuses world_pending [task_4821] = (Inr m, [Run [''squeue'']])"
    and v: "\<forall>task\<in>set [task_4821]. m (drm_jobID task) =
                 Some (case qjobs (drm_jobID task) of
                         None \<Rightarrow> ''???''
                       | Some row \<Rightarrow> (case row ''ST'' of None \<Rightarrow> ''???'' | Some st \<Rightarrow> st))"
    by blast
  from q have qj: "qjobs = [''4821'' \<mapsto> [''JOBID'' \<mapsto> ''4821'', ''ST'' \<mapsto> ''PD'']]"
    by (simp add: qstat_pending)
  from v have "m ''4821'' = Some ''PD''" by (simp add: qj task_4821_def)
  with r show ?thesis by simp
qed

subsection \<open>The completion filter\<close>

lemma parse_ok_record:
  "parse_acct jid ''JobId=4821 JobState=COMPLETED''
     = Inr [''JobId'' \<mapsto> ''4821'', ''JobState'' \<mapsto> ''COMPLETED'']"
  by (simp add: parse_acct_spec spec_parse_def spec_tokens_def is_space_def)

lemma first_attempt_succeeds:
  assumes "scontrol w (drm_jobID task) 0 = (Returned out, err)" and "strip out \<noteq> []"
  shows "qacct_raw w task 600 15 = (parse_acct (drm_jobID task) out, [Run (scontrol_argv (drm_jobID task))])"
  using assms by (simp add: qacct_raw_def qacct_loop.simps [of _ _ _ _ 0] qacct_attempt_def)

lemma data_configuring:
  "get_task_return_data world_configuring task_4821
     = (Inr [''JobId'' \<mapsto> ''4821'', ''JobState'' \<mapsto> ''COMPLETED''], [Run (scontrol_argv ''4821'')])"
proof -
  have s: "scontrol world_configuring (drm_jobID task_4821) 0
      = (Returned ''JobId=4821 JobState=COMPLETED'', [])"
    by (simp add: world_configuring_def)
  have n: "strip ''JobId=4821 JobState=COMPLETED'' \<noteq> []"
    by (simp add: strip_def is_space_def)
  have "qacct_raw world_configuring task_4821 600 15
     = (Inr [''JobId'' \<mapsto> ''4821'', ''JobState'' \<mapsto> ''COMPLETED''], [Run (scontrol_argv ''4821'')])"
    using first_attempt_succeeds [OF s n] by (simp add: parse_ok_record task_4821_def)
  then show ?thesis by (simp add: get_task_return_data_def)
qed

lemma is_done_configuring:
  "is_done [''4821'' \<mapsto> [''JOBID'' \<mapsto> ''4821'', ''ST'' \<mapsto> ''CF'']] task_4821 = Inr True"
  by (simp add: is_done_def task_4821_def finished_states_def sublist_Cons_right)


text \<open>
  C1. \<open>squeue\<close> lists job 4821 with the status \<open>CF\<close> (configuring), which is none of the
  eight codes; \<open>filter_is_done\<close> ends without an exception and yields the task of the job
  as completed, because the test of line 48 finds \<open>F\<close> inside \<open>CF\<close>.
\<close>

theorem completion_filter_marks_CF_done:
  "qstat_all (squeue world_configuring)
     = Inr [''4821'' \<mapsto> [''JOBID'' \<mapsto> ''4821'', ''ST'' \<mapsto> ''CF'']]
   \<and> ''CF'' \<notin> set finished_states
   \<and> map fst (fst (filter_is_done world_configuring [task_4821])) = [task_4821]
   \<and> fst (snd (filter_is_done world_configuring [task_4821])) = None"
proof -
  have "''CF'' \<notin> set finished_states" by (simp add: finished_states_def)
  moreover have "map fst (fst (filter_is_done world_configuring [task_4821])) = [task_4821]"
    by (simp add: filter_is_done_def qstat_configuring is_done_configuring data_configuring)
  moreover have "fst (snd (filter_is_done world_configuring [task_4821])) = None"
    by (simp add: filter_is_done_def qstat_configuring is_done_configuring data_configuring)
  ultimately show ?thesis using qstat_configuring by simp
qed

subsection \<open>Submission\<close>

lemma re_search_job_drop:
  "re_search_job s = None \<longleftrightarrow> (\<forall>p. match_job_at (drop p s) = None)"
proof (induction s)
  case Nil
  show ?case by (simp add: match_job_at_def)
next
  case (Cons c cs)
  have "(\<forall>p. match_job_at (drop p (c # cs)) = None)
      \<longleftrightarrow> match_job_at (c # cs) = None \<and> (\<forall>p. match_job_at (drop p cs) = None)"
  proof
    assume a: "\<forall>p. match_job_at (drop p (c # cs)) = None"
    from a [rule_format, of 0] have "match_job_at (c # cs) = None" by simp
    moreover have "match_job_at (drop p cs) = None" for p
      using a [rule_format, of "Suc p"] by simp
    ultimately show "match_job_at (c # cs) = None \<and> (\<forall>p. match_job_at (drop p cs) = None)"
      by simp
  next
    assume a: "match_job_at (c # cs) = None \<and> (\<forall>p. match_job_at (drop p cs) = None)"
    show "\<forall>p. match_job_at (drop p (c # cs)) = None"
    proof
      fix p show "match_job_at (drop p (c # cs)) = None"
        using a by (cases p) simp_all
    qed
  qed
  with Cons.IH show ?case by (simp split: option.splits)
qed

lemma match_job_at_here:
  assumes "ds \<noteq> []" and "\<forall>c\<in>set ds. is_digit c" and "post = [] \<or> \<not> is_digit (hd post)"
  shows "match_job_at (''job '' @ ds @ post) = Some ds"
proof -
  have "takeWhile is_digit (ds @ post) = ds"
    using assms(2,3) by (cases post) (simp_all add: takeWhile_append2)
  with assms(1) show ?thesis by (simp add: match_job_at_def)
qed

lemma re_search_job_first:
  assumes "ds \<noteq> []" and "\<forall>c\<in>set ds. is_digit c" and "post = [] \<or> \<not> is_digit (hd post)"
    and "\<forall>p<length pre. match_job_at (drop p (pre @ ''job '' @ ds @ post)) = None"
  shows "re_search_job (pre @ ''job '' @ ds @ post) = Some ds"
  using assms(4)
proof (induction pre)
  case Nil
  show ?case using match_job_at_here [OF assms(1,2,3)] by simp
next
  case (Cons c pre)
  have "match_job_at (drop 0 ((c # pre) @ ''job '' @ ds @ post)) = None"
    using Cons.prems [rule_format, of 0] by simp
  then have here: "match_job_at (c # pre @ ''job '' @ ds @ post) = None" by simp
  have "\<forall>p<length pre. match_job_at (drop p (pre @ ''job '' @ ds @ post)) = None"
  proof (intro allI impI)
    fix p assume "p < length pre"
    then have "Suc p < length (c # pre)" by simp
    with Cons.prems have "match_job_at (drop (Suc p) ((c # pre) @ ''job '' @ ds @ post)) = None"
      by blast
    then show "match_job_at (drop p (pre @ ''job '' @ ds @ post)) = None" by simp
  qed
  with Cons.IH have "re_search_job (pre @ ''job '' @ ds @ post) = Some ds" by simp
  with here show ?case by simp
qed


lemma command_holds_paths:
  "set (output_stdout_path task) \<subseteq> set (sbatch_command task)"
  "set (output_stderr_path task) \<subseteq> set (sbatch_command task)"
  by (auto simp: sbatch_command_def Let_def)

lemma unlink_if_exists_ok:
  assumes "CHR 0x00 \<notin> set p" and "files p \<noteq> Some Unremovable"
  shows "\<exists>files'. unlink_if_exists files p = Inr files'
           \<and> (\<forall>q. files' q \<noteq> Some Unremovable \<or> files q = Some Unremovable)"
proof (cases "files p")
  case None
  with assms show ?thesis by (auto simp: unlink_if_exists_def)
next
  case (Some e)
  with assms have "e = Removable" by (cases e) auto
  with Some assms show ?thesis by (auto simp: unlink_if_exists_def)
qed

lemma submit_job_runs_sbatch:
  assumes "CHR 0x00 \<notin> set (sbatch_command task)"
    and "files (output_stdout_path task) \<noteq> Some Unremovable"
    and "files (output_stderr_path task) \<noteq> Some Unremovable"
    and "sbatch w (sbatch_command task) = Returned out"
  shows "fst (submit_job w files task)
           = (case re_search_job out of None \<Rightarrow> Inl AttributeError | Some jobID \<Rightarrow> Inr jobID)"
    and "snd (snd (submit_job w files task)) = [Shell (sbatch_command task)]"
proof -
  have n1: "CHR 0x00 \<notin> set (output_stdout_path task)"
    and n2: "CHR 0x00 \<notin> set (output_stderr_path task)"
    using assms(1) command_holds_paths [of task] by auto
  from unlink_if_exists_ok [of "output_stdout_path task" files, OF n1 assms(2)] obtain files1 where
    u1: "unlink_if_exists files (output_stdout_path task) = Inr files1"
    and k1: "\<forall>q. files1 q \<noteq> Some Unremovable \<or> files q = Some Unremovable" by blast
  from k1 assms(3) have "files1 (output_stderr_path task) \<noteq> Some Unremovable" by blast
  from unlink_if_exists_ok [of "output_stderr_path task" files1, OF n2 this] obtain files2 where
    u2: "unlink_if_exists files1 (output_stderr_path task) = Inr files2" by blast
  show "fst (submit_job w files task)
           = (case re_search_job out of None \<Rightarrow> Inl AttributeError | Some jobID \<Rightarrow> Inr jobID)"
    using assms(1,4) u1 u2 by (simp add: submit_job_def Let_def split: option.splits)
  show "snd (snd (submit_job w files task)) = [Shell (sbatch_command task)]"
    using assms(1,4) u1 u2 by (simp add: submit_job_def Let_def split: option.splits)
qed

text \<open>A stale output file that cannot be deleted ends the submission before \<open>sbatch\<close>.\<close>

lemma submit_job_stale_output_unremovable:
  assumes "CHR 0x00 \<notin> set (output_stdout_path task)"
    and "files (output_stdout_path task) = Some Unremovable"
  shows "submit_job w files task = (Inl OSError, files, [])"
  using assms by (simp add: submit_job_def unlink_if_exists_def)

text \<open>
  C8, as amended. Let the submit command run: its command line has no NUL byte, no
  stale output file is in the way that cannot be deleted, and \<open>sbatch\<close> exits with
  status 0 and the output \<open>out\<close>. Then \<open>submit_job\<close> runs that command line and nothing
  else. When \<open>out\<close> is \<open>pre job ds post\<close>, where \<open>ds\<close> is a non-empty run of digits that
  \<open>post\<close> does not continue and no match of \<open>job <digit>\<close> starts inside \<open>pre\<close>, it
  returns \<open>ds\<close>: the digits after the first \<open>job \<close> that is followed by a digit. When
  \<open>out\<close> has no such match, it fails with \<open>AttributeError\<close>, which carries no text.
\<close>

theorem submit_job_extraction:
  assumes "sbatch w (sbatch_command task) = Returned out"
    and "CHR 0x00 \<notin> set (sbatch_command task)"
    and "files (output_stdout_path task) \<noteq> Some Unremovable"
    and "files (output_stderr_path task) \<noteq> Some Unremovable"
  shows "snd (snd (submit_job w files task)) = [Shell (sbatch_command task)]
       \<and> (out = pre @ ''job '' @ ds @ post \<and> ds \<noteq> [] \<and> (\<forall>c\<in>set ds. is_digit c)
            \<and> (post = [] \<or> \<not> is_digit (hd post))
            \<and> (\<forall>p<length pre. match_job_at (drop p out) = None)
          \<longrightarrow> fst (submit_job w files task) = Inr ds)
       \<and> ((\<forall>p. match_job_at (drop p out) = None)
          \<longrightarrow> fst (submit_job w files task) = Inl AttributeError)"
proof (intro conjI impI)
  note run = submit_job_runs_sbatch [OF assms(2,3,4,1)]
  show "snd (snd (submit_job w files task)) = [Shell (sbatch_command task)]" by (rule run(2))
  {
    assume a: "out = pre @ ''job '' @ ds @ post \<and> ds \<noteq> [] \<and> (\<forall>c\<in>set ds. is_digit c)
            \<and> (post = [] \<or> \<not> is_digit (hd post))
            \<and> (\<forall>p<length pre. match_job_at (drop p out) = None)"
    then have "re_search_job out = Some ds"
      using re_search_job_first [of ds post pre] by blast
    then show "fst (submit_job w files task) = Inr ds" by (simp add: run(1))
  }
  {
    assume "\<forall>p. match_job_at (drop p out) = None"
    then have "re_search_job out = None" by (simp add: re_search_job_drop)
    then show "fst (submit_job w files task) = Inl AttributeError" by (simp add: run(1))
  }
qed

lemma no_match_before:
  "\<forall>p<length ''Submitted batch ''. match_job_at (drop p ''Submitted batch job 4821'') = None"
  by (simp add: All_less_Suc match_job_at_def)

lemma no_match_at_all: "\<forall>p. match_job_at (drop p ''Submitted batch job'') = None"
proof -
  have "re_search_job ''Submitted batch job'' = None"
    by (simp add: match_job_at_def)
  then show ?thesis using re_search_job_drop [of "''Submitted batch job''"] by blast
qed

lemma command_4821: "sbatch_command task_4821 = ''sbatch -o out.txt -e err.txt  run.sh''"
  by (simp add: sbatch_command_def task_4821_def)

theorem submit_job_extraction_witness:
  "submit_job world_ok [''out.txt'' \<mapsto> Removable] task_4821
     = (Inr ''4821'', Map.empty, [Shell ''sbatch -o out.txt -e err.txt  run.sh''])
   \<and> fst (submit_job world_no_jobid [''out.txt'' \<mapsto> Removable] task_4821) = Inl AttributeError"
proof -
  let ?files = "[''out.txt'' \<mapsto> Removable]"
  have r: "sbatch world_ok (sbatch_command task_4821) = Returned ''Submitted batch job 4821''"
    by (simp add: world_ok_def)
  have r': "sbatch world_no_jobid (sbatch_command task_4821) = Returned ''Submitted batch job''"
    by (simp add: world_no_jobid_def)
  have n: "CHR 0x00 \<notin> set (sbatch_command task_4821)" by (simp add: command_4821)
  have f1: "?files (output_stdout_path task_4821) \<noteq> Some Unremovable"
    and f2: "?files (output_stderr_path task_4821) \<noteq> Some Unremovable"
    by (simp_all add: task_4821_def)
  have h: "''Submitted batch job 4821'' = ''Submitted batch '' @ ''job '' @ ''4821'' @ []
      \<and> ''4821'' \<noteq> [] \<and> (\<forall>c\<in>set ''4821''. is_digit c)
      \<and> (([]::string) = [] \<or> \<not> is_digit (hd []))
      \<and> (\<forall>p<length ''Submitted batch ''. match_job_at (drop p ''Submitted batch job 4821'') = None)"
    using no_match_before by (simp add: is_digit_def)
  have fs: "fst (snd (submit_job world_ok ?files task_4821)) = Map.empty"
    by (simp add: submit_job_def unlink_if_exists_def task_4821_def Let_def
        split: check_output.splits option.splits)
  have "fst (submit_job world_ok ?files task_4821) = Inr ''4821''
      \<and> snd (snd (submit_job world_ok ?files task_4821)) = [Shell (sbatch_command task_4821)]"
    using submit_job_extraction [OF r n f1 f2, of "''Submitted batch ''" "''4821''" "[]"] h
    by blast
  moreover have "fst (submit_job world_no_jobid ?files task_4821) = Inl AttributeError"
    using submit_job_extraction [OF r' n f1 f2] no_match_at_all by blast
  ultimately show ?thesis using fs
    by (simp add: command_4821 prod_eq_iff)
qed

text \<open>
  C8, as stated, fails: on the output \<open>Submitted batch job\<close> the error is the
  \<open>AttributeError\<close> of \<open>None.group\<close>, not an error with the raw output.
\<close>

theorem submit_job_no_match_counterexample:
  "sbatch world_no_jobid (sbatch_command task_4821) = Returned ''Submitted batch job''
   \<and> submit_job world_no_jobid Map.empty task_4821
       = (Inl AttributeError, Map.empty, [Shell ''sbatch -o out.txt -e err.txt  run.sh''])"
  by (simp add: submit_job_def unlink_if_exists_def world_no_jobid_def match_job_at_def
      command_4821) (simp add: task_4821_def)

subsection \<open>Cancellation\<close>

lemma grouper_chunks:
  "grouper n xs = map (\<lambda>c. map Some c @ replicate (n - length c) None) (spec_chunks n xs)"
proof (induction n xs rule: spec_chunks.induct)
  case (1 n xs)
  show ?case
  proof (cases "n = 0 \<or> xs = []")
    case True
    then show ?thesis by (subst grouper.simps, subst spec_chunks.simps) simp
  next
    case False
    with "1.IH" show ?thesis
      by (subst grouper.simps, subst spec_chunks.simps) simp
  qed
qed

lemma filter_padding:
  "filter (\<lambda>x. x \<noteq> None) (map Some c @ replicate k None) = map Some c"
  by (induction c) simp_all

lemma concat_spec_chunks: "0 < n \<Longrightarrow> concat (spec_chunks n xs) = xs"
proof (induction n xs rule: spec_chunks.induct)
  case (1 n xs)
  show ?case
  proof (cases "xs = []")
    case True
    then show ?thesis by (subst spec_chunks.simps) simp
  next
    case False
    with "1.IH" "1.prems" show ?thesis by (subst spec_chunks.simps) simp
  qed
qed

lemma spec_chunks_sizes: "c \<in> set (spec_chunks n xs) \<Longrightarrow> c \<noteq> [] \<and> length c \<le> n"
proof (induction n xs rule: spec_chunks.induct)
  case (1 n xs)
  show ?case
  proof (cases "n = 0 \<or> xs = []")
    case True
    with "1.prems" show ?thesis by (subst (asm) spec_chunks.simps) simp
  next
    case False
    from "1.prems" have "c = take n xs \<or> c \<in> set (spec_chunks n (drop n xs))"
      using False by (subst (asm) spec_chunks.simps) simp
    with "1.IH" False show ?thesis by auto
  qed
qed

lemma spec_chunks_120:
  assumes "length xs = 120"
  shows "spec_chunks 50 xs = [take 50 xs, take 50 (drop 50 xs), drop 100 xs]"
proof -
  have a: "xs \<noteq> []" and b: "drop 50 xs \<noteq> []" and c: "drop 50 (drop 50 xs) \<noteq> []"
    and d: "drop 50 (drop 50 (drop 50 xs)) = []"
    using assms by auto
  have "spec_chunks 50 xs = take 50 xs # spec_chunks 50 (drop 50 xs)"
    using a by (subst spec_chunks.simps) simp
  also have "spec_chunks 50 (drop 50 xs) = take 50 (drop 50 xs) # spec_chunks 50 (drop 50 (drop 50 xs))"
    using b by (subst spec_chunks.simps) simp
  also have "spec_chunks 50 (drop 50 (drop 50 xs))
      = take 50 (drop 50 (drop 50 xs)) # spec_chunks 50 (drop 50 (drop 50 (drop 50 xs)))"
    using c by (subst spec_chunks.simps) simp
  also have "spec_chunks 50 (drop 50 (drop 50 (drop 50 xs))) = []"
    using d by (subst spec_chunks.simps) simp
  finally show ?thesis using assms by simp
qed


lemma set_join: "set (join sep xs) \<subseteq> set sep \<union> (\<Union>x\<in>set xs. set x)"
  by (induction sep xs rule: join.induct) auto

lemma split_at_no_sep: "\<forall>c\<in>set x. \<not> P c \<Longrightarrow> split_at P x = [x]"
  by (induction x) auto

lemma split_at_append_sep:
  "\<forall>c\<in>set x. \<not> P c \<Longrightarrow> P s \<Longrightarrow> split_at P (x @ s # rest) = x # split_at P rest"
  by (induction x) auto

lemma split_join:
  assumes "xs \<noteq> []" and "\<forall>x\<in>set xs. s \<notin> set x"
  shows "split_at (\<lambda>c. c = s) (join [s] xs) = xs"
  using assms
proof (induction "[s]" xs rule: join.induct)
  case 1
  then show ?case by simp
next
  case (2 x)
  then show ?case using split_at_no_sep [of x "\<lambda>c. c = s"] by auto
next
  case (3 x y ys)
  then have "split_at (\<lambda>c. c = s) (join [s] (y # ys)) = y # ys" by simp
  moreover have "\<forall>c\<in>set x. \<not> c = s" using "3.prems" by auto
  ultimately show ?case
    using split_at_append_sep [of x "\<lambda>c. c = s" s "join [s] (y # ys)"] by simp
qed

lemma padded_group_ids:
  "map (\<lambda>t. drm_jobID (the t)) (filter (\<lambda>x. x \<noteq> None) (map Some c @ replicate k None))
     = map drm_jobID c"
  by (simp add: filter_padding comp_def)

lemma kill_loop_padded:
  "kill_loop scancel ((map Some c @ replicate k None) # gs) =
     (if CHR 0x00 \<in> set (join '' '' (map drm_jobID c))
      then (Inl TypeError, [Run [''scancel'', ''-Q'', join '' '' (map drm_jobID c)]])
      else (case scancel [''scancel'', ''-Q'', join '' '' (map drm_jobID c)] of
              Call_OSError \<Rightarrow> (Inl OSError, [Run [''scancel'', ''-Q'', join '' '' (map drm_jobID c)]])
            | Exit_status rc \<Rightarrow>
                (let (r, tr) = kill_loop scancel gs
                 in (r, Run [''scancel'', ''-Q'', join '' '' (map drm_jobID c)] # tr))))"
  by (simp only: kill_loop.simps Let_def padded_group_ids)

lemma kill_loop_all_start:
  assumes "\<forall>c\<in>set cs. scancel [''scancel'', ''-Q'', join '' '' (map drm_jobID c)] \<noteq> Call_OSError"
    and "\<forall>c\<in>set cs. CHR 0x00 \<notin> set (join '' '' (map drm_jobID c))"
  shows "kill_loop scancel (map (\<lambda>c. map Some c @ replicate (n - length c) None) cs)
     = (Inr (), map (\<lambda>c. Run [''scancel'', ''-Q'', join '' '' (map drm_jobID c)]) cs)"
  using assms
proof (induction cs)
  case Nil
  show ?case by simp
next
  case (Cons c cs)
  from Cons.prems(1) obtain rc where
    rc: "scancel [''scancel'', ''-Q'', join '' '' (map drm_jobID c)] = Exit_status rc"
    by (cases "scancel [''scancel'', ''-Q'', join '' '' (map drm_jobID c)]") auto
  from Cons.prems(2) have n: "CHR 0x00 \<notin> set (join '' '' (map drm_jobID c))" by simp
  from Cons have IH: "kill_loop scancel (map (\<lambda>c. map Some c @ replicate (n - length c) None) cs)
     = (Inr (), map (\<lambda>c. Run [''scancel'', ''-Q'', join '' '' (map drm_jobID c)]) cs)" by simp
  have "kill_loop scancel ((map Some c @ replicate (n - length c) None)
          # map (\<lambda>c. map Some c @ replicate (n - length c) None) cs)
     = (Inr (), Run [''scancel'', ''-Q'', join '' '' (map drm_jobID c)]
                # map (\<lambda>c. Run [''scancel'', ''-Q'', join '' '' (map drm_jobID c)]) cs)"
    unfolding kill_loop_padded using rc n IH by simp
  then show ?case by simp
qed

lemma chunk_in_tasks:
  assumes "c \<in> set (spec_chunks 50 tasks)" shows "set c \<subseteq> set tasks"
proof -
  have "set c \<subseteq> set (concat (spec_chunks 50 tasks))" using assms by auto
  then show ?thesis by (simp add: concat_spec_chunks)
qed

lemma chunk_no_nul:
  assumes "\<forall>task\<in>set tasks. CHR 0x00 \<notin> set (drm_jobID task)"
    and "c \<in> set (spec_chunks 50 tasks)"
  shows "CHR 0x00 \<notin> set (join '' '' (map drm_jobID c))"
proof
  assume "CHR 0x00 \<in> set (join '' '' (map drm_jobID c))"
  with set_join [of "'' ''" "map drm_jobID c"]
  have "CHR 0x00 \<in> set '' '' \<union> (\<Union>x\<in>set (map drm_jobID c). set x)" by blast
  then obtain t where "t \<in> set c" and "CHR 0x00 \<in> set (drm_jobID t)" by auto
  with chunk_in_tasks [OF assms(2)] assms(1) show False by blast
qed

text \<open>
  C9, as amended. Let no job identifier hold a NUL byte and let \<open>scancel\<close> start for the
  argument of every chunk. Then \<open>kill_tasks\<close> raises nothing and calls \<open>scancel -Q\<close> once
  per chunk of the task list, in order, with the job identifiers of the chunk joined by
  single spaces as its one argument: cutting the argument at its spaces gives the
  identifiers back (when they hold no space themselves). The chunks are consecutive
  pieces of the list, none empty and none longer than 50, and together they are the
  list. For 120 tasks there are three calls, for the first 50, the next 50 and the
  last 20 tasks.
\<close>

theorem kill_tasks_chunks:
  assumes "\<forall>task\<in>set tasks. CHR 0x00 \<notin> set (drm_jobID task)"
    and "\<forall>chunk\<in>set (spec_chunks 50 tasks).
           scancel [''scancel'', ''-Q'', join '' '' (map drm_jobID chunk)] \<noteq> Call_OSError"
  shows "kill_tasks scancel tasks
           = (Inr (), map (\<lambda>chunk. Run [''scancel'', ''-Q'', join '' '' (map drm_jobID chunk)])
                          (spec_chunks 50 tasks))
   \<and> concat (spec_chunks 50 tasks) = tasks
   \<and> (\<forall>chunk\<in>set (spec_chunks 50 tasks). chunk \<noteq> [] \<and> length chunk \<le> 50)
   \<and> (\<forall>chunk\<in>set (spec_chunks 50 tasks).
         (\<forall>task\<in>set chunk. CHR '' '' \<notin> set (drm_jobID task))
         \<longrightarrow> split_at (\<lambda>c. c = CHR '' '') (join '' '' (map drm_jobID chunk))
               = map drm_jobID chunk)
   \<and> (length tasks = 120 \<longrightarrow>
        spec_chunks 50 tasks = [take 50 tasks, take 50 (drop 50 tasks), drop 100 tasks]
        \<and> map length (spec_chunks 50 tasks) = [50, 50, 20]
        \<and> length (snd (kill_tasks scancel tasks)) = 3)"
proof (intro conjI impI ballI)
  have nul: "\<forall>c\<in>set (spec_chunks 50 tasks). CHR 0x00 \<notin> set (join '' '' (map drm_jobID c))"
    using chunk_no_nul [OF assms(1)] by blast
  show k: "kill_tasks scancel tasks
           = (Inr (), map (\<lambda>chunk. Run [''scancel'', ''-Q'', join '' '' (map drm_jobID chunk)])
                          (spec_chunks 50 tasks))"
    unfolding kill_tasks_def grouper_chunks by (rule kill_loop_all_start [OF assms(2) nul])
  show "concat (spec_chunks 50 tasks) = tasks" by (rule concat_spec_chunks) simp
  show "chunk \<noteq> []" if "chunk \<in> set (spec_chunks 50 tasks)" for chunk
    using spec_chunks_sizes [OF that] by simp
  show "length chunk \<le> 50" if "chunk \<in> set (spec_chunks 50 tasks)" for chunk
    using spec_chunks_sizes [OF that] by simp
  show "split_at (\<lambda>c. c = CHR '' '') (join '' '' (map drm_jobID chunk)) = map drm_jobID chunk"
    if "chunk \<in> set (spec_chunks 50 tasks)"
      and "\<forall>task\<in>set chunk. CHR '' '' \<notin> set (drm_jobID task)" for chunk
  proof -
    have "map drm_jobID chunk \<noteq> []" using spec_chunks_sizes [OF that(1)] by simp
    moreover have "\<forall>x\<in>set (map drm_jobID chunk). CHR '' '' \<notin> set x" using that(2) by simp
    ultimately show ?thesis by (rule split_join)
  qed
  assume l: "length tasks = 120"
  show c: "spec_chunks 50 tasks = [take 50 tasks, take 50 (drop 50 tasks), drop 100 tasks]"
    by (rule spec_chunks_120 [OF l])
  show "map length (spec_chunks 50 tasks) = [50, 50, 20]" using l by (simp add: c)
  show "length (snd (kill_tasks scancel tasks)) = 3" by (simp add: k c)
qed

lemma job_number_digits: "set (job_number n) \<subseteq> set ''0123456789''"
proof -
  have "''0123456789'' ! (d mod 10) \<in> set ''0123456789''" for d :: nat
    by (rule nth_mem) simp
  then show ?thesis unfolding job_number_def by (auto simp del: nth_Cons_numeral)
qed

lemma tasks_120_ids:
  assumes "t \<in> set tasks_120" shows "set (drm_jobID t) \<subseteq> set ''0123456789''"
proof -
  from assms obtain i where "t = task_numbered (4821 + i)" by (auto simp: tasks_120_def)
  then have "drm_jobID t = job_number (4821 + i)" by (simp add: task_numbered_def)
  then show ?thesis using job_number_digits [of "4821 + i"] by (simp only:)
qed

lemma tasks_120_chunks:
  "map (\<lambda>chunk. join '' '' (map drm_jobID chunk))
     [take 50 tasks_120, take 50 (drop 50 tasks_120), drop 100 tasks_120]
   = [''4821 4822 4823 4824 4825 4826 4827 4828 4829 4830 4831 4832 4833 4834 4835 4836 4837 4838 4839 4840 4841 4842 4843 4844 4845 4846 4847 4848 4849 4850 4851 4852 4853 4854 4855 4856 4857 4858 4859 4860 4861 4862 4863 4864 4865 4866 4867 4868 4869 4870'',
      ''4871 4872 4873 4874 4875 4876 4877 4878 4879 4880 4881 4882 4883 4884 4885 4886 4887 4888 4889 4890 4891 4892 4893 4894 4895 4896 4897 4898 4899 4900 4901 4902 4903 4904 4905 4906 4907 4908 4909 4910 4911 4912 4913 4914 4915 4916 4917 4918 4919 4920'',
      ''4921 4922 4923 4924 4925 4926 4927 4928 4929 4930 4931 4932 4933 4934 4935 4936 4937 4938 4939 4940'']"
  by (simp add: tasks_120_def task_numbered_def job_number_def upt_rec)


lemma length_tasks_120: "length tasks_120 = 120"
  by (simp add: tasks_120_def)

lemma tasks_120_no_nul: "\<forall>task\<in>set tasks_120. CHR 0x00 \<notin> set (drm_jobID task)"
proof
  fix task assume "task \<in> set tasks_120"
  from tasks_120_ids [OF this] show "CHR 0x00 \<notin> set (drm_jobID task)" by auto
qed

theorem kill_tasks_chunks_witness:
  "length tasks_120 = 120
   \<and> kill_tasks scancel_ok tasks_120
       = (Inr (),
          [Run [''scancel'', ''-Q'', ''4821 4822 4823 4824 4825 4826 4827 4828 4829 4830 4831 4832 4833 4834 4835 4836 4837 4838 4839 4840 4841 4842 4843 4844 4845 4846 4847 4848 4849 4850 4851 4852 4853 4854 4855 4856 4857 4858 4859 4860 4861 4862 4863 4864 4865 4866 4867 4868 4869 4870''],
           Run [''scancel'', ''-Q'', ''4871 4872 4873 4874 4875 4876 4877 4878 4879 4880 4881 4882 4883 4884 4885 4886 4887 4888 4889 4890 4891 4892 4893 4894 4895 4896 4897 4898 4899 4900 4901 4902 4903 4904 4905 4906 4907 4908 4909 4910 4911 4912 4913 4914 4915 4916 4917 4918 4919 4920''],
           Run [''scancel'', ''-Q'', ''4921 4922 4923 4924 4925 4926 4927 4928 4929 4930 4931 4932 4933 4934 4935 4936 4937 4938 4939 4940'']])"
proof -
  have h: "\<forall>chunk\<in>set (spec_chunks 50 tasks_120).
      scancel_ok [''scancel'', ''-Q'', join '' '' (map drm_jobID chunk)] \<noteq> Call_OSError"
    by (simp add: scancel_ok_def)
  from kill_tasks_chunks [OF tasks_120_no_nul h] length_tasks_120
  have "kill_tasks scancel_ok tasks_120
      = (Inr (), map (\<lambda>chunk. Run [''scancel'', ''-Q'', join '' '' (map drm_jobID chunk)])
                  [take 50 tasks_120, take 50 (drop 50 tasks_120), drop 100 tasks_120])"
    by simp
  then show ?thesis using tasks_120_chunks length_tasks_120 by simp
qed

text \<open>
  C9, as stated, fails: where \<open>scancel\<close> cannot be started, the first call raises
  \<open>OSError\<close> and ends \<open>kill_tasks\<close>; for 120 tasks one call is made, not three.
\<close>

theorem kill_tasks_cannot_start_counterexample:
  "length tasks_120 = 120
   \<and> kill_tasks scancel_missing tasks_120
       = (Inl OSError,
          [Run [''scancel'', ''-Q'', ''4821 4822 4823 4824 4825 4826 4827 4828 4829 4830 4831 4832 4833 4834 4835 4836 4837 4838 4839 4840 4841 4842 4843 4844 4845 4846 4847 4848 4849 4850 4851 4852 4853 4854 4855 4856 4857 4858 4859 4860 4861 4862 4863 4864 4865 4866 4867 4868 4869 4870'']])"
proof -
  have j: "join '' '' (map drm_jobID (take 50 tasks_120)) = ''4821 4822 4823 4824 4825 4826 4827 4828 4829 4830 4831 4832 4833 4834 4835 4836 4837 4838 4839 4840 4841 4842 4843 4844 4845 4846 4847 4848 4849 4850 4851 4852 4853 4854 4855 4856 4857 4858 4859 4860 4861 4862 4863 4864 4865 4866 4867 4868 4869 4870''"
    using tasks_120_chunks by simp
  have "kill_tasks scancel_missing tasks_120
      = kill_loop scancel_missing
          (map (\<lambda>c. map Some c @ replicate (50 - length c) None)
             [take 50 tasks_120, take 50 (drop 50 tasks_120), drop 100 tasks_120])"
    by (simp only: kill_tasks_def grouper_chunks spec_chunks_120 [OF length_tasks_120])
  also have "\<dots> = (Inl OSError, [Run [''scancel'', ''-Q'', join '' '' (map drm_jobID (take 50 tasks_120))]])"
    unfolding list.map kill_loop_padded j by (simp add: scancel_missing_def)
  finally show ?thesis using j length_tasks_120 by simp
qed

end
